theory Spec2Isabelle
  imports Complex_Main "HOL-Library.Log_Nat"
begin

section \<open>Deep Zoom pyramid geometry (deepzoom.go)\<close>

text \<open>
  Conventions of the embedding.

  \<^item> Go's \<open>int\<close> is the 64-bit signed integer. Image dimensions come from the bounds
    of a decoded raster and are far below \<open>2^53\<close>; the quantities computed from them
    alone (level count, scale, level dimensions) are modelled on \<open>int\<close> and exact
    rationals, where \<open>float64\<close> arithmetic on such values is exact. Tile size and
    overlap are command line flags that nothing validates: in \<open>getTileBounds\<close> every
    integer operation on them wraps around as the machine does (\<open>wrap64\<close>), and the
    conversions between \<open>int\<close> and \<open>float64\<close> round (\<open>float64_of_int\<close>,
    \<open>int_of_float64\<close>); the tile count divides by the tile size (see \<open>getNumTiles\<close>).
  \<^item> A product of \<open>float64\<close> values that need not be exact (the encoder quality
    \<open>int(ImageQuality * 100)\<close>) is not computed in the model: the values of type
    \<open>float64\<close> are of an arbitrary type and the conversion is a parameter.
  \<^item> \<open>int(math.Ceil(math.Log2(float64 n)))\<close> is modelled by the exact ceiling of the
    binary logarithm, \<open>Log2_ceil\<close>. For \<open>n \<le> 0\<close> Go converts an infinity or a NaN
    to an integer, which is implementation specific; the model is only meaningful for
    \<open>n > 0\<close>.
  \<^item> A \<open>panic\<close> is the left injection of a sum type.
  \<^item> The libraries the program calls (image decoding, resizing and cropping,
    \<open>path.Join\<close>, the file system) are parameters of the model; the file system is a
    log of the effects that succeeded.
  \<^item> The descriptor is passed by pointer in Go and \<open>NumLevels\<close> fills the cache field
    \<open>numLevels\<close>; every method therefore returns the updated descriptor next to its
    result.
\<close>

datatype error =
    InvalidLevel          \<comment> \<open>\<open>panic(errors.New("invalid pyramid level"))\<close>\<close>
  | UnsupportedFormat     \<comment> \<open>\<open>panic(errors.New("only jpg and png are supported"))\<close>\<close>
  | LibraryError string   \<comment> \<open>\<open>check(err)\<close> on an error returned by a library call\<close>

record DeepZoomImageDescriptor =
  Format :: string
  Overlap :: int
  TileSize :: int
  Height :: int
  Width :: int
  numLevels :: int

record Point =
  X :: int
  Y :: int

text \<open>\<open>image.Rectangle\<close>; the fields \<open>Min\<close> and \<open>Max\<close> are renamed, the names being taken in HOL.\<close>

record Rectangle =
  Min_pt :: Point
  Max_pt :: Point

text \<open>
  Machine arithmetic. \<open>wrap64\<close> is the value of a 64-bit signed integer operation
  whose mathematical result is the argument. \<open>float64_of_int\<close> is \<open>float64(i)\<close> for a
  64-bit integer \<open>i\<close>: the nearest number with a significand of 53 bits, ties to the
  even significand; the result is an integer, and it is \<open>i\<close> itself when
  \<open>\<bar>i\<bar> \<le> 2^53\<close>. \<open>int_of_float64\<close> is \<open>int(f)\<close> for a float with an integer value;
  outside the 64-bit range the language leaves the result to the implementation, and
  the model takes the one of amd64.
\<close>

definition wrap64 :: "int \<Rightarrow> int" where
  "wrap64 i = (i + 2 ^ 63) mod 2 ^ 64 - 2 ^ 63"

definition float64_of_int :: "int \<Rightarrow> int" where
  "float64_of_int i =
     (if \<bar>i\<bar> < 2 ^ 53 then i
      else (let a = \<bar>i\<bar>;
                e = nat (bitlen a - 53);
                q = a div 2 ^ e;
                r = a mod 2 ^ e;
                q' = (if 2 * r > 2 ^ e \<or> (2 * r = 2 ^ e \<and> odd q) then q + 1 else q)
            in sgn i * (q' * 2 ^ e)))"

definition int_of_float64 :: "int \<Rightarrow> int" where
  "int_of_float64 f = (if - (2 ^ 63) \<le> f \<and> f < 2 ^ 63 then f else - (2 ^ 63))"

text \<open>\<open>Rectangle.Dx\<close> and \<open>Rectangle.Dy\<close>.\<close>

definition Dx :: "Rectangle \<Rightarrow> int" where
  "Dx r = wrap64 (X (Max_pt r) - X (Min_pt r))"

definition Dy :: "Rectangle \<Rightarrow> int" where
  "Dy r = wrap64 (Y (Max_pt r) - Y (Min_pt r))"

text \<open>\<open>int(math.Ceil(math.Log2(float64(n))))\<close> for \<open>n > 0\<close>.\<close>

definition Log2_ceil :: "int \<Rightarrow> int" where
  "Log2_ceil n = int (ceillog2 (nat n))"

text \<open>\<open>math.Pow(0.5, float64(k))\<close>.\<close>

definition Pow_half :: "int \<Rightarrow> rat" where
  "Pow_half k = (if 0 \<le> k then (1 / 2) ^ nat k else 2 ^ nat (- k))"

definition NumLevels :: "DeepZoomImageDescriptor \<Rightarrow> int \<times> DeepZoomImageDescriptor" where
  "NumLevels dzid =
     (if numLevels dzid = 0 then
        (let maxDimension = max (Height dzid) (Width dzid);
             dzid' = dzid\<lparr>numLevels := Log2_ceil maxDimension + 1\<rparr>
         in (numLevels dzid', dzid'))
      else (numLevels dzid, dzid))"

text \<open>
  \<open>level < 0 || level >= dzid.NumLevels()\<close>: the second operand, and with it the cache
  fill, is only evaluated when the first is false.
\<close>

definition pyramidLevelCheck ::
  "int \<Rightarrow> DeepZoomImageDescriptor \<Rightarrow> error + DeepZoomImageDescriptor" where
  "pyramidLevelCheck level dzid =
     (if level < 0 then Inl InvalidLevel
      else (case NumLevels dzid of (n, dzid') \<Rightarrow>
              if level \<ge> n then Inl InvalidLevel else Inr dzid'))"

definition getScale ::
  "int \<Rightarrow> DeepZoomImageDescriptor \<Rightarrow> error + (rat \<times> DeepZoomImageDescriptor)" where
  "getScale level dzid =
     (case pyramidLevelCheck level dzid of
        Inl e \<Rightarrow> Inl e
      | Inr d1 \<Rightarrow>
          (case NumLevels d1 of (n, d2) \<Rightarrow>
             (let maxLevel = n - 1 in Inr (Pow_half (maxLevel - level), d2))))"

definition getDimensions ::
  "int \<Rightarrow> DeepZoomImageDescriptor \<Rightarrow> error + ((int \<times> int) \<times> DeepZoomImageDescriptor)" where
  "getDimensions level dzid =
     (case pyramidLevelCheck level dzid of
        Inl e \<Rightarrow> Inl e
      | Inr d1 \<Rightarrow>
          (case getScale level d1 of
             Inl e \<Rightarrow> Inl e
           | Inr (scale, d2) \<Rightarrow>
               (let width = \<lceil>of_int (Width d2) * scale\<rceil>;
                    height = \<lceil>of_int (Height d2) * scale\<rceil>
                in Inr ((width, height), d2))))"

text \<open>
  Number of tiles (columns, rows). For a tile size other than 0 the ceiling of the
  \<open>float64\<close> quotient is the ceiling of the exact quotient, which the model takes
  (the level dimension is below \<open>2^53\<close>); for a tile size of 0 the code converts an
  infinity to an integer, and the model is not meaningful.
\<close>

definition getNumTiles ::
  "int \<Rightarrow> DeepZoomImageDescriptor \<Rightarrow> error + ((int \<times> int) \<times> DeepZoomImageDescriptor)" where
  "getNumTiles level dzid =
     (case pyramidLevelCheck level dzid of
        Inl e \<Rightarrow> Inl e
      | Inr d1 \<Rightarrow>
          (case getDimensions level d1 of
             Inl e \<Rightarrow> Inl e
           | Inr ((w, h), d2) \<Rightarrow>
               Inr ((\<lceil>(of_int w :: rat) / of_int (TileSize d2)\<rceil>,
                     \<lceil>(of_int h :: rat) / of_int (TileSize d2)\<rceil>), d2)))"

text \<open>
  \<open>int(math.Min(float64(w), float64(levelWidth - x)))\<close>: both arguments are converted
  to \<open>float64\<close>, the smaller is converted back.
\<close>

definition getTileBounds ::
  "int \<Rightarrow> int \<Rightarrow> int \<Rightarrow> DeepZoomImageDescriptor \<Rightarrow>
     error + (Rectangle \<times> DeepZoomImageDescriptor)" where
  "getTileBounds level column row dzid =
     (case pyramidLevelCheck level dzid of
        Inl e \<Rightarrow> Inl e
      | Inr d1 \<Rightarrow>
          (let offsetX = (if column \<noteq> 0 then Overlap d1 else 0);
               offsetW = (if column \<noteq> 0 then 2 else 1);
               offsetY = (if row \<noteq> 0 then Overlap d1 else 0);
               offsetH = (if row \<noteq> 0 then 2 else 1);
               x = wrap64 (wrap64 (column * TileSize d1) - offsetX);
               y = wrap64 (wrap64 (row * TileSize d1) - offsetY)
           in (case getDimensions level d1 of
                 Inl e \<Rightarrow> Inl e
               | Inr ((levelWidth, levelHeight), d2) \<Rightarrow>
                   (let w0 = wrap64 (TileSize d2 + wrap64 (offsetW * Overlap d2));
                        h0 = wrap64 (TileSize d2 + wrap64 (offsetH * Overlap d2));
                        w = int_of_float64
                              (min (float64_of_int w0)
                                   (float64_of_int (wrap64 (levelWidth - x))));
                        h = int_of_float64
                              (min (float64_of_int h0)
                                   (float64_of_int (wrap64 (levelHeight - y))))
                    in Inr (\<lparr>Min_pt = \<lparr>X = x, Y = y\<rparr>,
                             Max_pt = \<lparr>X = wrap64 (x + w), Y = wrap64 (y + h)\<rparr>\<rparr>, d2)))))"

section \<open>The cache and closed forms of the geometry\<close>

text \<open>
  The level count the cache holds once it is filled, the invariant of the cache field
  (empty, or holding that count), and the descriptor after the fill. Every method
  leaves a descriptor that satisfies the invariant in the filled state.
\<close>

definition levels_of :: "DeepZoomImageDescriptor \<Rightarrow> int" where
  "levels_of dzid = Log2_ceil (max (Height dzid) (Width dzid)) + 1"

definition cache_ok :: "DeepZoomImageDescriptor \<Rightarrow> bool" where
  "cache_ok dzid = (numLevels dzid = 0 \<or> numLevels dzid = levels_of dzid)"

definition filled :: "DeepZoomImageDescriptor \<Rightarrow> DeepZoomImageDescriptor" where
  "filled dzid = dzid\<lparr>numLevels := levels_of dzid\<rparr>"

text \<open>Ceiling division on integers, the closed form of \<open>int(math.Ceil(a / b))\<close>.\<close>

definition ceil_div :: "int \<Rightarrow> int \<Rightarrow> int" where
  "ceil_div a b = - ((- a) div b)"

text \<open>
  One axis of \<open>getTileBounds\<close>, for a coordinate \<open>c\<close>, tile size \<open>t\<close>, overlap \<open>ov\<close> and
  level extent \<open>lw\<close>: the start \<open>x\<close>, the clipped size \<open>w\<close> and the end \<open>x + w\<close> as
  the function computes them.
\<close>

definition axis_start :: "int \<Rightarrow> int \<Rightarrow> int \<Rightarrow> int" where
  "axis_start c t ov = wrap64 (wrap64 (c * t) - (if c \<noteq> 0 then ov else 0))"

definition axis_size :: "int \<Rightarrow> int \<Rightarrow> int \<Rightarrow> int \<Rightarrow> int" where
  "axis_size c t ov lw =
     int_of_float64
       (min (float64_of_int (wrap64 (t + wrap64 ((if c \<noteq> 0 then 2 else 1) * ov))))
            (float64_of_int (wrap64 (lw - axis_start c t ov))))"

definition axis_end :: "int \<Rightarrow> int \<Rightarrow> int \<Rightarrow> int \<Rightarrow> int" where
  "axis_end c t ov lw = wrap64 (axis_start c t ov + axis_size c t ov lw)"

text \<open>
  The descriptor literal of \<open>ImageCreator.New\<close>: the cache field has Go's zero value.
\<close>

definition fresh_dzid :: "int \<Rightarrow> int \<Rightarrow> int \<Rightarrow> int \<Rightarrow> string \<Rightarrow> DeepZoomImageDescriptor" where
  "fresh_dzid width height tileSize overlap format =
     \<lparr>Format = format, Overlap = overlap, TileSize = tileSize, Height = height, Width = width,
      numLevels = 0\<rparr>"

section \<open>Vocabulary of the tiling properties\<close>

text \<open>
  \<open>inside\<close> is \<open>image.Point.In\<close>: a rectangle contains its minimum and excludes its
  maximum. The next three definitions follow the words of the specification, not the
  code: stripping the overlap from a rectangle's leading (left and top) edge, which is
  present exactly where the tile has a predecessor; the number of sides of a tile on
  one axis that have a neighbouring tile; and membership of a pixel in the stripped
  rectangle of a tile.
\<close>

definition inside :: "Rectangle \<Rightarrow> int \<times> int \<Rightarrow> bool" where
  "inside r p = (X (Min_pt r) \<le> fst p \<and> fst p < X (Max_pt r)
               \<and> Y (Min_pt r) \<le> snd p \<and> snd p < Y (Max_pt r))"

definition strip_leading_overlap ::
  "DeepZoomImageDescriptor \<Rightarrow> int \<Rightarrow> int \<Rightarrow> Rectangle \<Rightarrow> Rectangle" where
  "strip_leading_overlap dzid column row r =
     r\<lparr>Min_pt := \<lparr>X = X (Min_pt r) + (if column \<noteq> 0 then Overlap dzid else 0),
                   Y = Y (Min_pt r) + (if row \<noteq> 0 then Overlap dzid else 0)\<rparr>\<rparr>"

definition neighbours :: "int \<Rightarrow> int \<Rightarrow> int" where
  "neighbours coordinate count =
     (if coordinate \<noteq> 0 then 1 else 0) + (if coordinate + 1 < count then 1 else 0)"

definition in_stripped_tile ::
  "int \<Rightarrow> int \<Rightarrow> int \<Rightarrow> DeepZoomImageDescriptor \<Rightarrow> int \<times> int \<Rightarrow> bool" where
  "in_stripped_tile level column row dzid p =
     (case getTileBounds level column row dzid of
        Inl e \<Rightarrow> False
      | Inr (r, d') \<Rightarrow> inside (strip_leading_overlap dzid column row r) p)"

section \<open>Resize filters, image loading and tile emission (deepzoom.go)\<close>

text \<open>\<open>resize.InterpolationFunction\<close>; \<open>NearestNeighbor\<close> is its zero value.\<close>

datatype InterpolationFunction =
  NearestNeighbor | Bilinear | Bicubic | MitchellNetravali | Lanczos2 | Lanczos3

text \<open>
  The map \<open>RESIZE_FILTERS\<close> as an association list. A Go map is iterated in an order
  that is not specified; \<open>obtainFilter\<close> only records whether some key equals the name,
  which does not depend on the order.
\<close>

definition RESIZE_FILTERS :: "(string \<times> InterpolationFunction) list" where
  "RESIZE_FILTERS =
     [(''bilinear'', Bilinear), (''bicubic'', Bicubic),
      (''nearest'', NearestNeighbor), (''lanczos'', Lanczos3)]"

definition obtainFilter :: "string \<Rightarrow> string" where
  "obtainFilter filter_name =
     (let b = fold (\<lambda>k b. if filter_name = k then True else b) (map fst RESIZE_FILTERS) False
      in if b = False then ''nearest'' else filter_name)"

text \<open>\<open>RESIZE_FILTERS[name]\<close>: indexing a Go map with a missing key gives the zero value.\<close>

definition RESIZE_FILTERS_at :: "string \<Rightarrow> InterpolationFunction" where
  "RESIZE_FILTERS_at name =
     (case map_of RESIZE_FILTERS name of Some f \<Rightarrow> f | None \<Rightarrow> NearestNeighbor)"

text \<open>
  Effects. The file system is a log of the effects that succeeded, oldest first. Tile
  files are written by an encoder; the datatype has both encoders of Go's image
  library, the code calls \<open>jpeg.Encode\<close>.
\<close>

datatype codec = JPEG | PNG

datatype 'img event =
    MkdirAll string                              \<comment> \<open>\<open>os.MkdirAll(path, os.ModePerm)\<close>\<close>
  | Create string                                \<comment> \<open>\<open>os.Create(path)\<close>\<close>
  | Encode codec string 'img int                 \<comment> \<open>encoder, file written to, image, quality\<close>
  | Execute string DeepZoomImageDescriptor       \<comment> \<open>the descriptor template written to a file\<close>

text \<open>
  The libraries the program calls are parameters of the model: rasters are values of an
  arbitrary type \<open>'img\<close>, and decoding, bounds, resizing, cropping, \<open>path.Join\<close> and
  the outcome of every file system call are fields of a record. So is
  \<open>QualityPercent\<close>, the value of \<open>int(q * 100)\<close> for a \<open>float64\<close> \<open>q\<close>, the values of
  \<open>float64\<close> being of an arbitrary type \<open>'q\<close>. \<open>NotExist\<close> is
  \<open>os.IsNotExist\<close> of the error of \<open>os.Stat\<close>; \<open>Fails\<close> gives the error of an effect
  that fails in the current state of the file system.
\<close>

record ('img, 'q) library =
  LoadJPG :: "string \<Rightarrow> string + 'img"
  LoadPNG :: "string \<Rightarrow> string + 'img"
  Bounds :: "'img \<Rightarrow> Rectangle"
  Thumbnail :: "int \<Rightarrow> int \<Rightarrow> 'img \<Rightarrow> InterpolationFunction \<Rightarrow> 'img"
  Crop :: "'img \<Rightarrow> Rectangle \<Rightarrow> 'img"
  Join :: "string \<Rightarrow> string \<Rightarrow> string"
  NotExist :: "'img event list \<Rightarrow> string \<Rightarrow> bool"
  Fails :: "'img event list \<Rightarrow> 'img event \<Rightarrow> string option"
  QualityPercent :: "'q \<Rightarrow> int"

text \<open>
  \<open>loadImage\<close> returns the pair (image, error) of the decoder, here a sum, or panics on an
  unsupported format.
\<close>

definition loadImage :: "('img, 'q) library \<Rightarrow> string \<Rightarrow> string \<Rightarrow> error + (string + 'img)" where
  "loadImage lib filePath format =
     (if format = '''' \<or> format = ''jpg'' then Inr (LoadJPG lib filePath)
      else if format = ''png'' then Inr (LoadPNG lib filePath)
      else Inl UnsupportedFormat)"

text \<open>An effect: it fails with the library's error, or is appended to the log.\<close>

definition perform ::
  "('img, 'q) library \<Rightarrow> 'img event \<Rightarrow> 'img event list \<Rightarrow> (error + unit) \<times> 'img event list" where
  "perform lib ev w =
     (case Fails lib w ev of
        Some err \<Rightarrow> (Inl (LibraryError err), w)
      | None \<Rightarrow> (Inr (), w @ [ev]))"

definition getOrCreatePath ::
  "('img, 'q) library \<Rightarrow> string \<Rightarrow> 'img event list \<Rightarrow> (error + string) \<times> 'img event list" where
  "getOrCreatePath lib filePath w =
     (if NotExist lib w filePath then
        (case perform lib (MkdirAll filePath) w of
           (Inl e, w') \<Rightarrow> (Inl e, w')
         | (Inr u, w') \<Rightarrow> (Inr filePath, w'))
      else (Inr filePath, w))"

text \<open>
  \<open>path.Ext\<close>: the suffix beginning at the final dot in the final slash-separated
  element, empty if there is none. \<open>Ext_scan p n\<close> is the loop of \<open>path.Ext\<close> with
  \<open>i = n - 1\<close>.
\<close>

fun Ext_scan :: "string \<Rightarrow> nat \<Rightarrow> string" where
  "Ext_scan p 0 = ''''"
| "Ext_scan p (Suc i) =
     (if p ! i = CHR ''/'' then ''''
      else if p ! i = CHR ''.'' then drop i p
      else Ext_scan p i)"

definition Ext :: "string \<Rightarrow> string" where
  "Ext p = Ext_scan p (length p)"

definition HasSuffix :: "string \<Rightarrow> string \<Rightarrow> bool" where
  "HasSuffix s suffix =
     (length s \<ge> length suffix \<and> drop (length s - length suffix) s = suffix)"

definition TrimSuffix :: "string \<Rightarrow> string \<Rightarrow> string" where
  "TrimSuffix s suffix =
     (if HasSuffix s suffix then take (length s - length suffix) s else s)"

definition getFilesPath :: "string \<Rightarrow> string" where
  "getFilesPath filePath = TrimSuffix filePath (Ext filePath) @ ''_files''"

text \<open>\<open>strconv.Itoa\<close> and the verb \<open>%d\<close>: decimal digits, with a sign for negatives.\<close>

fun digits :: "nat \<Rightarrow> string" where
  "digits n =
     (if n < 10 then [''0123456789'' ! n]
      else digits (n div 10) @ [''0123456789'' ! (n mod 10)])"

definition Itoa :: "int \<Rightarrow> string" where
  "Itoa i = (if i < 0 then CHR ''-'' # digits (nat (- i)) else digits (nat i))"

text \<open>\<open>fmt.Sprintf("%d_%d.%s", column, row, format)\<close>.\<close>

definition Sprintf_tile :: "int \<Rightarrow> int \<Rightarrow> string \<Rightarrow> string" where
  "Sprintf_tile column row format = Itoa column @ ''_'' @ Itoa row @ ''.'' @ format"

text \<open>\<open>uint(x)\<close> of a 64-bit integer.\<close>

definition uint :: "int \<Rightarrow> int" where
  "uint x = x mod 2 ^ 64"

text \<open>
  The field \<open>Image\<close> is renamed, the name being taken in HOL. \<open>New\<close> overwrites the
  fields \<open>dzid\<close> and \<open>Image\<close> of its receiver, which are nil before.
\<close>

record ('img, 'q) ImageCreator =
  dzid :: DeepZoomImageDescriptor
  Image_ic :: 'img
  ImageQuality :: 'q
  ResizeFilter :: string
  CopyMetadata :: bool

definition getImage ::
  "('img, 'q) library \<Rightarrow> int \<Rightarrow> ('img, 'q) ImageCreator \<Rightarrow> error + ('img \<times> ('img, 'q) ImageCreator)" where
  "getImage lib level ic =
     (case pyramidLevelCheck level (dzid ic) of
        Inl e \<Rightarrow> Inl e
      | Inr d1 \<Rightarrow>
          (case getDimensions level d1 of
             Inl e \<Rightarrow> Inl e
           | Inr ((width, height), d2) \<Rightarrow>
               if Width d2 = width \<and> Height d2 = height
               then Inr (Image_ic ic, ic\<lparr>dzid := d2\<rparr>)
               else (let filter_name = obtainFilter (ResizeFilter ic)
                     in Inr (Thumbnail lib (uint width) (uint height) (Image_ic ic)
                               (RESIZE_FILTERS_at filter_name),
                             ic\<lparr>dzid := d2\<rparr>))))"

text \<open>Creates Deep Zoom image from source file.\<close>

definition New ::
  "('img, 'q) library \<Rightarrow> ('img, 'q) ImageCreator \<Rightarrow> string \<Rightarrow> string \<Rightarrow> int \<Rightarrow> int \<Rightarrow>
     error + ('img, 'q) ImageCreator" where
  "New lib ic source format tileSize overlap =
     (case loadImage lib source format of
        Inl e \<Rightarrow> Inl e
      | Inr (Inl err) \<Rightarrow> Inl (LibraryError err)
      | Inr (Inr img) \<Rightarrow>
          (let width = Dx (Bounds lib img); height = Dy (Bounds lib img)
           in Inr (ic\<lparr>Image_ic := img,
                       dzid := fresh_dzid width height tileSize overlap format\<rparr>)))"

text \<open>\<open>save\<close>: the file is created, then the template is executed on the descriptor.\<close>

definition save ::
  "('img, 'q) library \<Rightarrow> string \<Rightarrow> DeepZoomImageDescriptor \<Rightarrow> 'img event list \<Rightarrow>
     (error + unit) \<times> 'img event list" where
  "save lib filePath d w =
     (case perform lib (Create filePath) w of
        (Inl e, w1) \<Rightarrow> (Inl e, w1)
      | (Inr u, w1) \<Rightarrow> perform lib (Execute filePath d) w1)"

text \<open>
  The three nested loops of \<open>create\<close>, innermost first. Each is a recursive function
  of the loop counter that threads the creator (whose descriptor caches the level
  count) and the log, and stops at the first panic.
\<close>

function rows_loop ::
  "('img, 'q) library \<Rightarrow> 'img \<Rightarrow> string \<Rightarrow> int \<Rightarrow> int \<Rightarrow> int \<Rightarrow> int \<Rightarrow> ('img, 'q) ImageCreator \<Rightarrow>
     'img event list \<Rightarrow> (error + ('img, 'q) ImageCreator) \<times> 'img event list" where
  "rows_loop lib levelImage levelDir level column rows row ic w =
     (if row < rows then
        (case getTileBounds level column row (dzid ic) of
           Inl e \<Rightarrow> (Inl e, w)
         | Inr (bounds, d1) \<Rightarrow>
             (let ic1 = ic\<lparr>dzid := d1\<rparr>;
                  tile = Crop lib levelImage bounds;
                  format = Format (dzid ic1);
                  tilePath = Join lib levelDir (Sprintf_tile column row format)
              in (case perform lib (Create tilePath) w of
                    (Inl e, w1) \<Rightarrow> (Inl e, w1)
                  | (Inr u, w1) \<Rightarrow>
                      (case perform lib
                              (Encode JPEG tilePath tile (QualityPercent lib (ImageQuality ic1)))
                              w1 of
                         (Inl e, w2) \<Rightarrow> (Inl e, w2)
                       | (Inr u', w2) \<Rightarrow>
                           rows_loop lib levelImage levelDir level column rows (row + 1) ic1 w2))))
      else (Inr ic, w))"
  by pat_completeness auto
termination
  by (relation "measure (\<lambda>(lib, levelImage, levelDir, level, column, rows, row, ic, w).
        nat (rows - row))") auto

declare rows_loop.simps [simp del]

function columns_loop ::
  "('img, 'q) library \<Rightarrow> 'img \<Rightarrow> string \<Rightarrow> int \<Rightarrow> int \<Rightarrow> int \<Rightarrow> int \<Rightarrow> ('img, 'q) ImageCreator \<Rightarrow>
     'img event list \<Rightarrow> (error + ('img, 'q) ImageCreator) \<times> 'img event list" where
  "columns_loop lib levelImage levelDir level columns rows column ic w =
     (if column < columns then
        (case rows_loop lib levelImage levelDir level column rows 0 ic w of
           (Inl e, w1) \<Rightarrow> (Inl e, w1)
         | (Inr ic1, w1) \<Rightarrow>
             columns_loop lib levelImage levelDir level columns rows (column + 1) ic1 w1)
      else (Inr ic, w))"
  by pat_completeness auto
termination
  by (relation "measure (\<lambda>(lib, levelImage, levelDir, level, columns, rows, column, ic, w).
        nat (columns - column))") auto

declare columns_loop.simps [simp del]

text \<open>
  Facts needed for the termination of the loop over the levels, whose bound
  \<open>ic.dzid.NumLevels()\<close> is evaluated again before every iteration: no method changes
  the value that \<open>NumLevels\<close> returns.
\<close>

lemma Log2_ceil_nonneg: "0 \<le> Log2_ceil n"
  by (simp add: Log2_ceil_def)

lemma NumLevels_stable: "NumLevels d = (n, d') \<Longrightarrow> NumLevels d' = (n, d')"
  using Log2_ceil_nonneg [of "max (Height d) (Width d)"]
  by (auto simp: NumLevels_def Let_def split: if_splits)

lemma pyramidLevelCheck_state:
  "pyramidLevelCheck level d = Inr d' \<Longrightarrow> d' = snd (NumLevels d)"
  by (auto simp: pyramidLevelCheck_def split: if_splits prod.splits)

lemma NumLevels_snd_snd [simp]: "snd (NumLevels (snd (NumLevels d))) = snd (NumLevels d)"
  using NumLevels_stable [of d "fst (NumLevels d)" "snd (NumLevels d)"] by simp

lemma NumLevels_fst_snd [simp]: "fst (NumLevels (snd (NumLevels d))) = fst (NumLevels d)"
  using NumLevels_stable [of d "fst (NumLevels d)" "snd (NumLevels d)"] by simp

lemma getScale_state: "getScale level d = Inr (s, d') \<Longrightarrow> d' = snd (NumLevels d)"
  by (auto simp: getScale_def Let_def split: sum.splits prod.splits
      dest!: pyramidLevelCheck_state) (metis NumLevels_snd_snd snd_conv)

lemma getDimensions_state: "getDimensions level d = Inr (r, d') \<Longrightarrow> d' = snd (NumLevels d)"
  by (auto simp: getDimensions_def Let_def split: sum.splits prod.splits
      dest!: pyramidLevelCheck_state getScale_state)

lemma getNumTiles_state: "getNumTiles level d = Inr (r, d') \<Longrightarrow> d' = snd (NumLevels d)"
  by (auto simp: getNumTiles_def Let_def split: sum.splits prod.splits
      dest!: pyramidLevelCheck_state getDimensions_state)

lemma getTileBounds_state:
  "getTileBounds level column row d = Inr (r, d') \<Longrightarrow> d' = snd (NumLevels d)"
  by (auto simp: getTileBounds_def Let_def split: sum.splits prod.splits
      dest!: pyramidLevelCheck_state getDimensions_state)

lemma getImage_state:
  "getImage lib level ic = Inr (img, ic') \<Longrightarrow> ic' = ic\<lparr>dzid := snd (NumLevels (dzid ic))\<rparr>"
  by (auto simp: getImage_def Let_def split: sum.splits prod.splits if_splits
      dest!: pyramidLevelCheck_state getDimensions_state)

lemma rows_loop_levels:
  "rows_loop lib levelImage levelDir level column rows row ic w = (Inr ic', w') \<Longrightarrow>
     fst (NumLevels (dzid ic')) = fst (NumLevels (dzid ic))"
proof (induction lib levelImage levelDir level column rows row ic w rule: rows_loop.induct)
  case (1 lib levelImage levelDir level column rows row ic w)
  show ?case
  proof (cases "row < rows")
    case False
    with "1.prems" show ?thesis by (subst (asm) rows_loop.simps) simp
  next
    case True
    from "1.prems" True obtain bounds d1 where
      b: "getTileBounds level column row (dzid ic) = Inr (bounds, d1)"
      by (subst (asm) rows_loop.simps) (auto split: sum.splits)
    let ?ic1 = "ic\<lparr>dzid := d1\<rparr>"
    let ?path = "Join lib levelDir (Sprintf_tile column row (Format d1))"
    from "1.prems" True b obtain w1 where
      c: "perform lib (Create ?path) w = (Inr (), w1)"
      by (subst (asm) rows_loop.simps) (auto simp: Let_def split: sum.splits prod.splits)
    let ?enc = "Encode JPEG ?path (Crop lib levelImage bounds)
                  (QualityPercent lib (ImageQuality ic))"
    from "1.prems" True b c obtain w2 where
      e: "perform lib ?enc w1 = (Inr (), w2)"
      by (subst (asm) rows_loop.simps) (auto simp: Let_def split: sum.splits prod.splits)
    from "1.prems" True b c e have
      r: "rows_loop lib levelImage levelDir level column rows (row + 1) ?ic1 w2 = (Inr ic', w')"
      by (subst (asm) rows_loop.simps) (simp add: Let_def)
    have "fst (NumLevels (dzid ic')) = fst (NumLevels (dzid ?ic1))"
      using "1.IH" [OF True b refl refl refl refl] c e r by simp
    also have "\<dots> = fst (NumLevels (dzid ic))"
      using getTileBounds_state [OF b] by simp
    finally show ?thesis .
  qed
qed


lemma columns_loop_levels:
  "columns_loop lib levelImage levelDir level columns rows column ic w = (Inr ic', w') \<Longrightarrow>
     fst (NumLevels (dzid ic')) = fst (NumLevels (dzid ic))"
proof (induction lib levelImage levelDir level columns rows column ic w
    rule: columns_loop.induct)
  case (1 lib levelImage levelDir level columns rows column ic w)
  show ?case
  proof (cases "column < columns")
    case False
    with "1.prems" show ?thesis by (subst (asm) columns_loop.simps) simp
  next
    case True
    from "1.prems" True obtain ic1 w1 where
      r: "rows_loop lib levelImage levelDir level column rows 0 ic w = (Inr ic1, w1)"
      by (subst (asm) columns_loop.simps) (auto split: sum.splits prod.splits)
    from "1.prems" True r have
      c: "columns_loop lib levelImage levelDir level columns rows (column + 1) ic1 w1
            = (Inr ic', w')"
      by (subst (asm) columns_loop.simps) simp
    have "fst (NumLevels (dzid ic')) = fst (NumLevels (dzid ic1))"
      using "1.IH" [OF True] r c by simp
    also have "\<dots> = fst (NumLevels (dzid ic))"
      using rows_loop_levels [OF r] .
    finally show ?thesis .
  qed
qed

function levels_loop ::
  "('img, 'q) library \<Rightarrow> string \<Rightarrow> int \<Rightarrow> ('img, 'q) ImageCreator \<Rightarrow> 'img event list \<Rightarrow>
     (error + ('img, 'q) ImageCreator) \<times> 'img event list" where
  "levels_loop lib imageFiles level ic w =
     (case NumLevels (dzid ic) of (n, d0) \<Rightarrow>
        (let ic0 = ic\<lparr>dzid := d0\<rparr> in
         if level < n then
           (case getOrCreatePath lib (Join lib imageFiles (Itoa level)) w of
              (Inl e, w1) \<Rightarrow> (Inl e, w1)
            | (Inr levelDir, w1) \<Rightarrow>
                (case getImage lib level ic0 of
                   Inl e \<Rightarrow> (Inl e, w1)
                 | Inr (levelImage, ic1) \<Rightarrow>
                     (case getNumTiles level (dzid ic1) of
                        Inl e \<Rightarrow> (Inl e, w1)
                      | Inr ((columns, rows), d2) \<Rightarrow>
                          (case columns_loop lib levelImage levelDir level columns rows 0
                                  (ic1\<lparr>dzid := d2\<rparr>) w1 of
                             (Inl e, w2) \<Rightarrow> (Inl e, w2)
                           | (Inr ic2, w2) \<Rightarrow> levels_loop lib imageFiles (level + 1) ic2 w2))))
         else (Inr ic0, w)))"
  by pat_completeness auto
termination
proof (relation "measure (\<lambda>(lib, imageFiles, level, ic, w).
        nat (fst (NumLevels (dzid ic)) - level))", goal_cases)
  case 1
  show ?case by simp
next
  case (2 lib imageFiles level ic w n d0 ic0 r1 w1 levelDir gi levelImage ic1 nt cr d2
      columns rows r2 w2 ic2)
  have c: "columns_loop lib levelImage levelDir level columns rows 0 (ic1\<lparr>dzid := d2\<rparr>) w1
             = (Inr ic2, w2)"
    using 2 by simp
  have t: "getNumTiles level (dzid ic1) = Inr ((columns, rows), d2)"
    using 2 by simp
  have g: "getImage lib level (ic\<lparr>dzid := d0\<rparr>) = Inr (levelImage, ic1)"
    using 2 by simp
  have n: "NumLevels (dzid ic) = (n, d0)"
    using 2 by simp
  have "fst (NumLevels (dzid ic2)) = fst (NumLevels (dzid (ic1\<lparr>dzid := d2\<rparr>)))"
    using columns_loop_levels [OF c] .
  also have "\<dots> = fst (NumLevels (dzid ic1))"
    using getNumTiles_state [OF t] by simp
  also have "\<dots> = fst (NumLevels d0)"
    using getImage_state [OF g] by simp
  also have "\<dots> = n"
    using NumLevels_stable [OF n] by simp
  finally show ?case using 2(3) n by simp
qed

declare levels_loop.simps [simp del]

definition create ::
  "('img, 'q) library \<Rightarrow> string \<Rightarrow> ('img, 'q) ImageCreator \<Rightarrow> 'img event list \<Rightarrow>
     (error + ('img, 'q) ImageCreator) \<times> 'img event list" where
  "create lib destination ic w =
     (case getOrCreatePath lib (getFilesPath destination) w of
        (Inl e, w1) \<Rightarrow> (Inl e, w1)
      | (Inr imageFiles, w1) \<Rightarrow>
          (case levels_loop lib imageFiles 0 ic w1 of
             (Inl e, w2) \<Rightarrow> (Inl e, w2)
           | (Inr ic1, w2) \<Rightarrow>
               (case save lib destination (dzid ic1) w2 of
                  (Inl e, w3) \<Rightarrow> (Inl e, w3)
                | (Inr u, w3) \<Rightarrow> (Inr ic1, w3))))"

text \<open>
  The last branch of \<open>main\<close>. \<open>zero\<close> stands for \<open>new(ImageCreator)\<close>; its nil fields are
  overwritten by \<open>New\<close> before anything reads them.
\<close>

definition main_run ::
  "('img, 'q) library \<Rightarrow> ('img, 'q) ImageCreator \<Rightarrow> string \<Rightarrow> string \<Rightarrow> int \<Rightarrow> int \<Rightarrow> 'q \<Rightarrow> string \<Rightarrow>
     'img event list \<Rightarrow> (error + ('img, 'q) ImageCreator) \<times> 'img event list" where
  "main_run lib zero source format tileSize overlap imageQuality destination w =
     (let creator = zero\<lparr>ImageQuality := imageQuality\<rparr>
      in (case New lib creator source format tileSize overlap of
            Inl e \<Rightarrow> (Inl e, w)
          | Inr creator' \<Rightarrow> create lib destination creator' w))"

section \<open>Vocabulary of the emission properties and an example library\<close>

text \<open>
  The cache holds the level count (the state of every descriptor after its first use).
\<close>

definition cache_full :: "DeepZoomImageDescriptor \<Rightarrow> bool" where
  "cache_full d = (numLevels d = levels_of d)"

text \<open>
  The path of a tile in the words of the specification: the destination without its
  extension, followed by \<open>_files\<close>, then the level, then column, row and format.
\<close>

definition tile_path :: "('img, 'q) library \<Rightarrow> string \<Rightarrow> int \<Rightarrow> int \<Rightarrow> int \<Rightarrow> string \<Rightarrow> string" where
  "tile_path lib destination level column row format =
     Join lib (Join lib (getFilesPath destination) (Itoa level)) (Sprintf_tile column row format)"

text \<open>
  A library for the examples: rasters are terms over the library calls, every decoded
  raster is 512 by 384, paths are joined with a slash, a directory exists once it has
  been made, and no effect fails. The floats are the two that occur, 0 and the double
  nearest to 0.8, for which \<open>int(q * 100)\<close> is 0 and 80. \<open>test_creator\<close> stands for \<open>new(ImageCreator)\<close>, and
  \<open>test_run_creator\<close> is the creator that \<open>New\<close> builds in this library for the format
  \<open>png\<close>, tile size 256 and overlap 10, with the quality 0.8 that \<open>main\<close> sets.
\<close>

datatype sym_float = Float_0 | Float_0_8

datatype sym_img =
    Src string
  | Thumb int int sym_img InterpolationFunction
  | Cropped sym_img Rectangle

definition test_library :: "(sym_img, sym_float) library" where
  "test_library =
     \<lparr>LoadJPG = (\<lambda>p. Inr (Src p)),
      LoadPNG = (\<lambda>p. Inr (Src p)),
      Bounds = (\<lambda>img. \<lparr>Min_pt = \<lparr>X = 0, Y = 0\<rparr>, Max_pt = \<lparr>X = 512, Y = 384\<rparr>\<rparr>),
      Thumbnail = Thumb,
      Crop = Cropped,
      Join = (\<lambda>a b. a @ ''/'' @ b),
      NotExist = (\<lambda>w p. MkdirAll p \<notin> set w),
      Fails = (\<lambda>w e. None),
      QualityPercent = (\<lambda>q. case q of Float_0 \<Rightarrow> 0 | Float_0_8 \<Rightarrow> 80)\<rparr>"

definition test_creator :: "(sym_img, sym_float) ImageCreator" where
  "test_creator =
     \<lparr>dzid = fresh_dzid 0 0 0 0 '''', Image_ic = Src '''', ImageQuality = Float_0,
      ResizeFilter = '''', CopyMetadata = False\<rparr>"

definition test_run_creator :: "(sym_img, sym_float) ImageCreator" where
  "test_run_creator =
     \<lparr>dzid = fresh_dzid 512 384 256 10 ''png'', Image_ic = Src ''photo.png'',
      ImageQuality = Float_0_8, ResizeFilter = '''', CopyMetadata = False\<rparr>"

section \<open>Closed forms\<close>

lemma Log2_ceil_eqI: "n \<le> 2 ^ l \<Longrightarrow> 2 ^ l < 2 * n \<Longrightarrow> Log2_ceil n = int l"
proof -
  assume a: "n \<le> 2 ^ l" "2 ^ l < 2 * n"
  then have n: "0 < n" using zero_less_power [of "2::int" l] by linarith
  have "int (nat n) \<le> int (2 ^ l)" using a(1) n by simp
  then have 1: "nat n \<le> 2 ^ l" by (simp only: of_nat_le_iff)
  have "int (2 ^ l) < int (2 * nat n)" using a(2) n by simp
  then have 2: "2 ^ l < 2 * nat n" by (simp only: of_nat_less_iff)
  show ?thesis unfolding Log2_ceil_def using 1 2 by (simp add: ceillog2_eqI)
qed

lemma Log2_ceil_log: "0 < n \<Longrightarrow> Log2_ceil n = \<lceil>log 2 (real_of_int n)\<rceil>"
proof -
  assume n: "0 < n"
  then have "nat n \<noteq> 0" by simp
  moreover have "real (nat n) = real_of_int n" using n by simp
  moreover have "0 \<le> log 2 (real_of_int n)" using n by simp
  then have "0 \<le> \<lceil>log 2 (real_of_int n)\<rceil>" by linarith
  ultimately show ?thesis unfolding Log2_ceil_def ceillog2_def
    by simp
qed

lemma ceil_Pow_half: "0 \<le> k \<Longrightarrow> \<lceil>of_int w * Pow_half k\<rceil> = - ((- w) div 2 ^ nat k)"
proof -
  assume k: "0 \<le> k"
  have "Pow_half k = 1 / (of_int (2 ^ nat k) :: rat)"
    using k by (simp add: Pow_half_def power_one_over)
  then have "of_int w * Pow_half k = (of_int w :: rat) / of_int (2 ^ nat k)"
    by (simp only: times_divide_eq_right mult_1_right)
  then show ?thesis by (simp only: ceiling_divide_eq_div)
qed


lemma Log2_ceil_rec: "Log2_ceil n = (if n \<le> 1 then 0 else 1 + Log2_ceil ((n + 1) div 2))"
proof (cases "n \<le> 1")
  case True
  then show ?thesis by (simp add: Log2_ceil_def)
next
  case False
  then have "nat ((n + 1) div 2) = (nat n + 1) div 2"
    by (simp add: nat_div_distrib nat_add_distrib)
  then show ?thesis using False
    by (subst Log2_ceil_def, subst ceillog2_rec) (simp add: Log2_ceil_def)
qed

lemma levels_of_pos: "0 < levels_of d"
  using Log2_ceil_nonneg [of "max (Height d) (Width d)"] by (simp add: levels_of_def)

lemma levels_of_filled [simp]: "levels_of (filled d) = levels_of d"
  by (simp add: levels_of_def filled_def)

lemma filled_fields [simp]:
  "Width (filled d) = Width d" "Height (filled d) = Height d"
  "TileSize (filled d) = TileSize d" "Overlap (filled d) = Overlap d"
  "Format (filled d) = Format d" "numLevels (filled d) = levels_of d"
  by (simp_all add: filled_def)

lemma cache_ok_filled [simp]: "cache_ok (filled d)"
  by (simp add: cache_ok_def)

lemma filled_filled [simp]: "filled (filled d) = filled d"
  by (simp add: filled_def levels_of_def)

lemma NumLevels_eq: "cache_ok d \<Longrightarrow> NumLevels d = (levels_of d, filled d)"
  using levels_of_pos [of d]
  by (auto simp: NumLevels_def cache_ok_def filled_def levels_of_def Let_def)

lemma pyramidLevelCheck_eq:
  "cache_ok d \<Longrightarrow> pyramidLevelCheck level d =
     (if 0 \<le> level \<and> level < levels_of d then Inr (filled d) else Inl InvalidLevel)"
  by (simp add: pyramidLevelCheck_def NumLevels_eq)

lemma getScale_eq:
  "cache_ok d \<Longrightarrow> getScale level d =
     (if 0 \<le> level \<and> level < levels_of d
      then Inr (Pow_half (levels_of d - 1 - level), filled d) else Inl InvalidLevel)"
  by (simp add: getScale_def pyramidLevelCheck_eq NumLevels_eq)

lemma getDimensions_eq:
  "cache_ok d \<Longrightarrow> getDimensions level d =
     (if 0 \<le> level \<and> level < levels_of d
      then Inr ((ceil_div (Width d) (2 ^ nat (levels_of d - 1 - level)),
                 ceil_div (Height d) (2 ^ nat (levels_of d - 1 - level))), filled d)
      else Inl InvalidLevel)"
  by (simp add: getDimensions_def pyramidLevelCheck_eq getScale_eq ceil_Pow_half ceil_div_def)

lemma getNumTiles_eq:
  "cache_ok d \<Longrightarrow> getNumTiles level d =
     (if 0 \<le> level \<and> level < levels_of d
      then Inr ((ceil_div (ceil_div (Width d) (2 ^ nat (levels_of d - 1 - level))) (TileSize d),
                 ceil_div (ceil_div (Height d) (2 ^ nat (levels_of d - 1 - level))) (TileSize d)),
                filled d)
      else Inl InvalidLevel)"
  by (simp add: getNumTiles_def pyramidLevelCheck_eq getDimensions_eq ceiling_divide_eq_div
      ceil_div_def)

lemma getTileBounds_eq:
  "cache_ok d \<Longrightarrow> getTileBounds level column row d =
     (if 0 \<le> level \<and> level < levels_of d
      then (let lw = ceil_div (Width d) (2 ^ nat (levels_of d - 1 - level));
                lh = ceil_div (Height d) (2 ^ nat (levels_of d - 1 - level))
            in Inr (\<lparr>Min_pt = \<lparr>X = axis_start column (TileSize d) (Overlap d),
                                  Y = axis_start row (TileSize d) (Overlap d)\<rparr>,
                     Max_pt = \<lparr>X = axis_end column (TileSize d) (Overlap d) lw,
                                  Y = axis_end row (TileSize d) (Overlap d) lh\<rparr>\<rparr>, filled d))
      else Inl InvalidLevel)"
  by (simp add: getTileBounds_def pyramidLevelCheck_eq getDimensions_eq Let_def
      axis_start_def axis_size_def axis_end_def)

section \<open>Machine arithmetic within its bounds\<close>

lemma wrap64_id: "- (2 ^ 63) \<le> i \<Longrightarrow> i < 2 ^ 63 \<Longrightarrow> wrap64 i = i"
  by (simp add: wrap64_def)

lemma float64_of_int_id: "\<bar>i\<bar> < 2 ^ 53 \<Longrightarrow> float64_of_int i = i"
  by (simp add: float64_of_int_def)

lemma int_of_float64_id: "- (2 ^ 63) \<le> f \<Longrightarrow> f < 2 ^ 63 \<Longrightarrow> int_of_float64 f = f"
  by (simp add: int_of_float64_def)

lemma bitlen_63: "bitlen 9223372036854775552 = 63" "bitlen 4611686018427388160 = 63"
  by code_simp+


lemma float64_of_int_large:
  assumes "2 ^ 53 \<le> i"
  shows "2 ^ 53 \<le> float64_of_int i"
proof -
  have "(0::int) < 2 ^ 53" by simp
  then have pos: "0 < i" using assms by linarith
  define e where "e = nat (bitlen i - 53)"
  define q where "q = i div 2 ^ e"
  define q' where "q' = (if 2 * (i mod 2 ^ e) > 2 ^ e \<or> (2 * (i mod 2 ^ e) = 2 ^ e \<and> odd q)
                         then q + 1 else q)"
  have b: "2 ^ nat (bitlen i - 1) \<le> i" "i < 2 ^ nat (bitlen i)"
    using bitlen_bounds [OF pos] by simp_all
  have lt: "(2::int) ^ 53 < 2 ^ nat (bitlen i)" using assms b(2) by linarith
  have "\<not> nat (bitlen i) \<le> 53"
  proof
    assume "nat (bitlen i) \<le> 53"
    then have "(2::int) ^ nat (bitlen i) \<le> 2 ^ 53" by (rule power_increasing) simp
    with lt show False by linarith
  qed
  then have bl: "54 \<le> bitlen i" by linarith
  have e1: "1 \<le> e" using bl by (simp add: e_def)
  have ne: "nat (bitlen i - 1) = 52 + e" using bl by (simp add: e_def)
  have pe: "(0::int) < 2 ^ e" by simp
  have "(2::int) ^ 52 * 2 ^ e \<le> i" using b(1) by (simp only: ne power_add)
  then have "(2 ^ 52 * 2 ^ e) div 2 ^ e \<le> i div (2::int) ^ e"
    using pe by (rule zdiv_mono1)
  then have q52: "2 ^ 52 \<le> q" by (simp add: q_def)
  have "q \<le> q'" by (simp add: q'_def)
  then have "2 ^ 52 \<le> q'" using q52 by linarith
  moreover have "(2::int) \<le> 2 ^ e"
    using power_increasing [of 1 e "2::int"] e1 by simp
  ultimately have "(2::int) ^ 52 * 2 \<le> q' * 2 ^ e"
    by (intro mult_mono) simp_all
  then have ge: "2 ^ 53 \<le> q' * 2 ^ e" by simp
  have "\<not> \<bar>i\<bar> < 2 ^ 53" using assms by linarith
  then have "float64_of_int i = q' * 2 ^ e"
    using pos by (simp add: float64_of_int_def Let_def e_def q_def q'_def)
  then show ?thesis using ge by simp
qed

text \<open>
  The round trip of \<open>math.Min\<close> through \<open>float64\<close> is the minimum itself when one
  argument is below \<open>2^53\<close>.
\<close>

lemma machine_min:
  assumes "0 < a" "0 < b" "b < 2 ^ 53"
  shows "int_of_float64 (min (float64_of_int a) (float64_of_int b)) = min a b"
proof -
  have fb: "float64_of_int b = b" using assms by (simp add: float64_of_int_id)
  have m: "min (float64_of_int a) b = min a b"
  proof (cases "a < 2 ^ 53")
    case True
    then show ?thesis using assms(1) by (simp add: float64_of_int_id)
  next
    case False
    then have "2 ^ 53 \<le> float64_of_int a" by (intro float64_of_int_large) simp
    then show ?thesis using False assms(3) by (simp add: min_def)
  qed
  have "0 < min a b" "min a b < 2 ^ 53" using assms by simp_all
  then have "- (2 ^ 63) \<le> min a b" "min a b < 2 ^ 63" by simp_all
  then show ?thesis unfolding fb m by (rule int_of_float64_id)
qed


lemma ceil_div_gt_iff: "0 < b \<Longrightarrow> c < ceil_div a b \<longleftrightarrow> c * b < a"
proof -
  assume b: "0 < b"
  have "ceil_div a b = \<lceil>(of_int a :: rat) / of_int b\<rceil>"
    by (simp add: ceil_div_def ceiling_divide_eq_div)
  then have "c < ceil_div a b \<longleftrightarrow> (of_int c :: rat) < of_int a / of_int b"
    by (simp add: less_ceiling_iff)
  also have "\<dots> \<longleftrightarrow> (of_int (c * b) :: rat) < of_int a"
    using b by (simp add: pos_less_divide_eq)
  also have "\<dots> \<longleftrightarrow> c * b < a"
    by (simp only: of_int_less_iff)
  finally show ?thesis .
qed

lemma ceil_div_pos: "0 < a \<Longrightarrow> 0 < b \<Longrightarrow> 0 < ceil_div a b"
  using ceil_div_gt_iff [of b 0 a] by simp

lemma ceil_div_one [simp]: "ceil_div a 1 = a"
  by (simp add: ceil_div_def)

lemma floor_640: "\<lfloor>log 2 (real_of_int (max 640 480))\<rfloor> = 9"
  using floor_log_nat_eq_if [of 2 9 640] by simp

lemma ceiling_eq_floor_iff: "(\<lceil>x::real\<rceil> = \<lfloor>x\<rfloor>) = (x \<in> \<int>)"
  by (metis Ints_of_int ceiling_of_int floor_of_int  Ints_cases le_of_int_ceiling of_int_floor_le order_antisym)

lemma log2_int_iff:
  assumes "0 < (m::int)"
  shows "(log 2 (real_of_int m) \<in> \<int>) = (\<exists>k::nat. m = 2 ^ k)"
proof
  assume "log 2 (real_of_int m) \<in> \<int>"
  then obtain j :: int where j: "log 2 (real_of_int m) = of_int j" by (auto elim: Ints_cases)
  have "0 \<le> log 2 (real_of_int m)" using assms by simp
  then have j0: "0 \<le> j" using j by simp
  have "2 powr log 2 (real_of_int m) = real_of_int m" using assms by simp
  then have "real_of_int m = 2 powr (of_int j)" using j by simp
  also have "\<dots> = 2 ^ nat j" using j0 by (simp add: powr_realpow [symmetric])
  finally have "real_of_int m = real_of_int (2 ^ nat j)" by simp
  then have "m = 2 ^ nat j" by (simp only: of_int_eq_iff)
  then show "\<exists>k::nat. m = 2 ^ k" by blast
next
  assume "\<exists>k::nat. m = 2 ^ k"
  then obtain k :: nat where "m = 2 ^ k" by blast
  then have "log 2 (real_of_int m) = of_nat k" by simp
  then show "log 2 (real_of_int m) \<in> \<int>" by simp
qed

lemma fresh_dzid_simps [simp]:
  "Format (fresh_dzid w h t ov f) = f" "Overlap (fresh_dzid w h t ov f) = ov"
  "TileSize (fresh_dzid w h t ov f) = t" "Height (fresh_dzid w h t ov f) = h"
  "Width (fresh_dzid w h t ov f) = w" "numLevels (fresh_dzid w h t ov f) = 0"
  "cache_ok (fresh_dzid w h t ov f)"
  by (simp_all add: fresh_dzid_def cache_ok_def)

lemma levels_512_384 [simp]: "levels_of (fresh_dzid 512 384 t ov f) = 10"
  by (simp add: levels_of_def Log2_ceil_rec)

lemma ceil_div_le_self: "0 < a \<Longrightarrow> 0 < b \<Longrightarrow> ceil_div a b \<le> a"
proof -
  assume a: "0 < a" and b: "0 < b"
  have "a * 1 \<le> a * b" using a b by (intro mult_left_mono) simp_all
  then have "\<not> a * b < a" by simp
  then show ?thesis using ceil_div_gt_iff [OF b, of a a] by simp
qed

text \<open>One axis of \<open>getTileBounds\<close>: within the bounds the machine computes the integers.\<close>

lemma machine_axis:
  fixes t ov lw c :: int
  assumes "0 < t" "0 \<le> ov" "t + 2 * ov < 2 ^ 63" "lw + ov < 2 ^ 53" "0 \<le> c" "c * t < lw"
  defines "off \<equiv> (if c \<noteq> 0 then ov else 0)"
  defines "k \<equiv> (if c \<noteq> 0 then 2 else 1)"
  shows "wrap64 (wrap64 (c * t) - off) = c * t - off"
    and "int_of_float64
           (min (float64_of_int (wrap64 (t + wrap64 (k * ov))))
                (float64_of_int (wrap64 (lw - (c * t - off)))))
         = min (t + k * ov) (lw - (c * t - off))"
    and "wrap64 (c * t - off + min (t + k * ov) (lw - (c * t - off)))
         = c * t - off + min (t + k * ov) (lw - (c * t - off))"
proof -
  have ct: "0 \<le> c * t" using assms(1,5) by simp
  have off: "0 \<le> off" "off \<le> ov" by (simp_all add: off_def assms(2))
  have k: "0 \<le> k * ov" "k * ov \<le> 2 * ov" using assms(2) by (simp_all add: k_def)
  have big: "(2::int) ^ 53 < 2 ^ 63" by simp
  have r1: "- (2 ^ 63) \<le> c * t" "c * t < 2 ^ 63" using ct assms(4,6) off assms(2) big by linarith+
  have w1: "wrap64 (c * t) = c * t" using r1 by (rule wrap64_id)
  have r2: "- (2 ^ 63) \<le> c * t - off" "c * t - off < 2 ^ 63"
    using ct assms(4,6) off assms(2) big by linarith+
  show x: "wrap64 (wrap64 (c * t) - off) = c * t - off"
    unfolding w1 using r2 by (rule wrap64_id)
  have r3: "- (2 ^ 63) \<le> k * ov" "k * ov < 2 ^ 63" using k assms(1,3) by linarith+
  have w3: "wrap64 (k * ov) = k * ov" using r3 by (rule wrap64_id)
  have r4: "- (2 ^ 63) \<le> t + k * ov" "t + k * ov < 2 ^ 63" using k assms(1,3) by linarith+
  have w4: "wrap64 (t + k * ov) = t + k * ov" using r4 by (rule wrap64_id)
  have b: "0 < lw - (c * t - off)" "lw - (c * t - off) < 2 ^ 53"
    using ct assms(4,6) off by linarith+
  have r5: "- (2 ^ 63) \<le> lw - (c * t - off)" "lw - (c * t - off) < 2 ^ 63"
    using b big by linarith+
  have w5: "wrap64 (lw - (c * t - off)) = lw - (c * t - off)" using r5 by (rule wrap64_id)
  have a: "0 < t + k * ov" using k assms(1) by linarith
  show "int_of_float64
           (min (float64_of_int (wrap64 (t + wrap64 (k * ov))))
                (float64_of_int (wrap64 (lw - (c * t - off)))))
         = min (t + k * ov) (lw - (c * t - off))"
    unfolding w3 w4 w5 using a b by (rule machine_min)
  have r6: "- (2 ^ 63) \<le> c * t - off + min (t + k * ov) (lw - (c * t - off))"
    "c * t - off + min (t + k * ov) (lw - (c * t - off)) < 2 ^ 63"
    using a b r2 ct off assms(2,4) big by (simp_all add: min_def) 
  show "wrap64 (c * t - off + min (t + k * ov) (lw - (c * t - off)))
         = c * t - off + min (t + k * ov) (lw - (c * t - off))"
    using r6 by (rule wrap64_id)
qed

lemma machine_axis_defs:
  fixes t ov lw c :: int
  assumes "0 < t" "0 \<le> ov" "t + 2 * ov < 2 ^ 63" "lw + ov < 2 ^ 53" "0 \<le> c" "c * t < lw"
  shows "axis_start c t ov = c * t - (if c \<noteq> 0 then ov else 0)"
    and "axis_end c t ov lw
         = c * t - (if c \<noteq> 0 then ov else 0)
           + min (t + (if c \<noteq> 0 then 2 else 1) * ov)
                 (lw - (c * t - (if c \<noteq> 0 then ov else 0)))"
  using machine_axis [OF assms]
  by (simp_all add: axis_start_def axis_size_def axis_end_def)

text \<open>One axis of a tile: start, clipped extent, and their relation to the grid.\<close>

lemma axis_clip:
  fixes t ov lw c n :: int
  assumes "0 < t" "0 \<le> ov" "0 \<le> c" "c * t < lw" "(c + 1 < n) = ((c + 1) * t < lw)"
  shows "min (t + (if c \<noteq> 0 then 2 else 1) * ov) (lw - (c * t - (if c \<noteq> 0 then ov else 0)))
         = min (t + neighbours c n * ov) (lw - (c * t - (if c \<noteq> 0 then ov else 0)))"
    and "c * t - (if c \<noteq> 0 then ov else 0)
           + min (t + (if c \<noteq> 0 then 2 else 1) * ov) (lw - (c * t - (if c \<noteq> 0 then ov else 0)))
         = min ((c + 1) * t + ov) lw"
    and "0 < min (t + (if c \<noteq> 0 then 2 else 1) * ov) (lw - (c * t - (if c \<noteq> 0 then ov else 0)))"
  using assms by (auto simp: neighbours_def min_def algebra_simps)

lemma dims_facts:
  assumes "0 < Width d" "0 < Height d" "cache_ok d"
    and dims: "getDimensions level d = Inr ((levelWidth, levelHeight), d1)"
  shows "0 \<le> level \<and> level < levels_of d"
    and "levelWidth = ceil_div (Width d) (2 ^ nat (levels_of d - 1 - level))"
    and "levelHeight = ceil_div (Height d) (2 ^ nat (levels_of d - 1 - level))"
    and "0 < levelWidth" and "0 < levelHeight"
proof -
  show v: "0 \<le> level \<and> level < levels_of d"
    using assms(3) dims by (simp add: getDimensions_eq split: if_splits)
  show w: "levelWidth = ceil_div (Width d) (2 ^ nat (levels_of d - 1 - level))"
    using assms(3) dims by (simp add: getDimensions_eq split: if_splits)
  show h: "levelHeight = ceil_div (Height d) (2 ^ nat (levels_of d - 1 - level))"
    using assms(3) dims by (simp add: getDimensions_eq split: if_splits)
  show "0 < levelWidth" unfolding w using assms(1) by (simp add: ceil_div_pos)
  show "0 < levelHeight" unfolding h using assms(2) by (simp add: ceil_div_pos)
qed

lemma tiles_facts:
  assumes "0 < Width d" "0 < Height d" "0 < TileSize d" "cache_ok d"
    and dims: "getDimensions level d = Inr ((levelWidth, levelHeight), d1)"
    and tiles: "getNumTiles level d = Inr ((columns, rows), d2)"
  shows "(c < columns) = (c * TileSize d < levelWidth)"
    and "(r < rows) = (r * TileSize d < levelHeight)"
proof -
  note f = dims_facts [OF assms(1,2,4) dims]
  have "columns = ceil_div levelWidth (TileSize d)"
    using assms(4) tiles f(1,2) by (simp add: getNumTiles_eq)
  then show "(c < columns) = (c * TileSize d < levelWidth)"
    using assms(3) by (simp add: ceil_div_gt_iff)
  have "rows = ceil_div levelHeight (TileSize d)"
    using assms(4) tiles f(1,3) by (simp add: getNumTiles_eq)
  then show "(r < rows) = (r * TileSize d < levelHeight)"
    using assms(3) by (simp add: ceil_div_gt_iff)
qed

lemma tile_bounds_axes:
  assumes "0 < Width d" "0 < Height d" "0 < TileSize d" "0 \<le> Overlap d" "cache_ok d"
    and "TileSize d + 2 * Overlap d < 2 ^ 63"
    and "Width d + Overlap d < 2 ^ 53" "Height d + Overlap d < 2 ^ 53"
    and dims: "getDimensions level d = Inr ((levelWidth, levelHeight), d1)"
    and tiles: "getNumTiles level d = Inr ((columns, rows), d2)"
    and "0 \<le> column" "column < columns" "0 \<le> row" "row < rows"
  shows "getTileBounds level column row d =
     Inr (\<lparr>Min_pt = \<lparr>X = column * TileSize d - (if column \<noteq> 0 then Overlap d else 0),
                      Y = row * TileSize d - (if row \<noteq> 0 then Overlap d else 0)\<rparr>,
           Max_pt = \<lparr>X = column * TileSize d - (if column \<noteq> 0 then Overlap d else 0)
                      + min (TileSize d + (if column \<noteq> 0 then 2 else 1) * Overlap d)
                          (levelWidth - (column * TileSize d - (if column \<noteq> 0 then Overlap d else 0))),
                      Y = row * TileSize d - (if row \<noteq> 0 then Overlap d else 0)
                      + min (TileSize d + (if row \<noteq> 0 then 2 else 1) * Overlap d)
                          (levelHeight - (row * TileSize d - (if row \<noteq> 0 then Overlap d else 0)))\<rparr>\<rparr>,
          filled d)"
proof -
  note df = dims_facts [OF assms(1,2,5) dims]
  note tf = tiles_facts [OF assms(1,2,3,5) dims tiles]
  have p2: "(0::int) < 2 ^ nat (levels_of d - 1 - level)" by simp
  have "levelWidth \<le> Width d" unfolding df(2) using assms(1) p2 by (rule ceil_div_le_self)
  then have bw: "levelWidth + Overlap d < 2 ^ 53" using assms(7) by linarith
  have "levelHeight \<le> Height d" unfolding df(3) using assms(2) p2 by (rule ceil_div_le_self)
  then have bh: "levelHeight + Overlap d < 2 ^ 53" using assms(8) by linarith
  have cx: "column * TileSize d < levelWidth" using tf(1) [of column] assms(12) by simp
  have cy: "row * TileSize d < levelHeight" using tf(2) [of row] assms(14) by simp
  note mx = machine_axis_defs [OF assms(3,4,6) bw assms(11) cx]
  note my = machine_axis_defs [OF assms(3,4,6) bh assms(13) cy]
  show ?thesis
    using df(1) assms(5)
    by (simp add: getTileBounds_eq Let_def mx my df(2) [symmetric] df(3) [symmetric])
qed

text \<open>The extent of a rectangle with such corners does not wrap either.\<close>

lemma extent_wrap:
  fixes t ov lw c k :: int
  assumes "0 < t" "0 \<le> ov" "lw + ov < 2 ^ 53" "0 \<le> c" "c * t < lw" "0 \<le> k"
  shows "wrap64 (min (t + k * ov) (lw - (c * t - (if c \<noteq> 0 then ov else 0))))
         = min (t + k * ov) (lw - (c * t - (if c \<noteq> 0 then ov else 0)))"
proof -
  have ct: "0 \<le> c * t" using assms(1,4) by simp
  have b: "0 < lw - (c * t - (if c \<noteq> 0 then ov else 0))"
    "lw - (c * t - (if c \<noteq> 0 then ov else 0)) < 2 ^ 53"
    using ct assms(2,3,5) by (auto split: if_splits)
  have a: "0 < t + k * ov" using assms(1,2,6) by (simp add: add_pos_nonneg)
  have big: "(2::int) ^ 53 < 2 ^ 63" by simp
  have "0 < min (t + k * ov) (lw - (c * t - (if c \<noteq> 0 then ov else 0)))"
    "min (t + k * ov) (lw - (c * t - (if c \<noteq> 0 then ov else 0))) < 2 ^ 53"
    using a b by simp_all
  then have "- (2 ^ 63) \<le> min (t + k * ov) (lw - (c * t - (if c \<noteq> 0 then ov else 0)))"
    "min (t + k * ov) (lw - (c * t - (if c \<noteq> 0 then ov else 0))) < 2 ^ 63"
    using big by linarith+
  then show ?thesis by (rule wrap64_id)
qed

text \<open>
  The rectangle of a tile in range, within the bounds of the machine arithmetic: start
  \<open>X0\<close>, \<open>Y0\<close> and extent \<open>Wx\<close>, \<open>Wy\<close>.
\<close>

lemma tile_rect:
  fixes X0 Y0 Wx Wy :: int
  assumes "0 < Width d" "0 < Height d" "0 < TileSize d" "0 \<le> Overlap d" "cache_ok d"
    and "TileSize d + 2 * Overlap d < 2 ^ 63"
    and "Width d + Overlap d < 2 ^ 53" "Height d + Overlap d < 2 ^ 53"
    and dims: "getDimensions level d = Inr ((levelWidth, levelHeight), d1)"
    and tiles: "getNumTiles level d = Inr ((columns, rows), d2)"
    and "0 \<le> column" "column < columns" "0 \<le> row" "row < rows"
  defines "X0 \<equiv> column * TileSize d - (if column \<noteq> 0 then Overlap d else 0)"
    and "Y0 \<equiv> row * TileSize d - (if row \<noteq> 0 then Overlap d else 0)"
  defines "Wx \<equiv> min (TileSize d + (if column \<noteq> 0 then 2 else 1) * Overlap d) (levelWidth - X0)"
    and "Wy \<equiv> min (TileSize d + (if row \<noteq> 0 then 2 else 1) * Overlap d) (levelHeight - Y0)"
  shows "getTileBounds level column row d
           = Inr (\<lparr>Min_pt = \<lparr>X = X0, Y = Y0\<rparr>, Max_pt = \<lparr>X = X0 + Wx, Y = Y0 + Wy\<rparr>\<rparr>, filled d)"
    and "wrap64 Wx = Wx" and "wrap64 Wy = Wy"
    and "Wx = min (TileSize d + neighbours column columns * Overlap d) (levelWidth - X0)"
    and "Wy = min (TileSize d + neighbours row rows * Overlap d) (levelHeight - Y0)"
    and "X0 + Wx = min ((column + 1) * TileSize d + Overlap d) levelWidth"
    and "Y0 + Wy = min ((row + 1) * TileSize d + Overlap d) levelHeight"
    and "0 < Wx" and "0 < Wy"
proof -
  note df = dims_facts [OF assms(1,2,5) dims]
  note tf = tiles_facts [OF assms(1,2,3,5) dims tiles]
  have p2: "(0::int) < 2 ^ nat (levels_of d - 1 - level)" by simp
  have "levelWidth \<le> Width d" unfolding df(2) using assms(1) p2 by (rule ceil_div_le_self)
  then have bw: "levelWidth + Overlap d < 2 ^ 53" using assms(7) by linarith
  have "levelHeight \<le> Height d" unfolding df(3) using assms(2) p2 by (rule ceil_div_le_self)
  then have bh: "levelHeight + Overlap d < 2 ^ 53" using assms(8) by linarith
  have cx: "column * TileSize d < levelWidth" using tf(1) [of column] assms(12) by simp
  have cy: "row * TileSize d < levelHeight" using tf(2) [of row] assms(14) by simp
  note ax = axis_clip [OF assms(3,4) assms(11) cx tf(1) [of "column + 1"]]
  note ay = axis_clip [OF assms(3,4) assms(13) cy tf(2) [of "row + 1"]]
  show "getTileBounds level column row d
           = Inr (\<lparr>Min_pt = \<lparr>X = X0, Y = Y0\<rparr>, Max_pt = \<lparr>X = X0 + Wx, Y = Y0 + Wy\<rparr>\<rparr>, filled d)"
    unfolding X0_def Y0_def Wx_def Wy_def
    by (rule tile_bounds_axes [OF assms(1-14)])
  show "wrap64 Wx = Wx" unfolding Wx_def X0_def
    by (rule extent_wrap [OF assms(3,4) bw assms(11) cx]) simp
  show "wrap64 Wy = Wy" unfolding Wy_def Y0_def
    by (rule extent_wrap [OF assms(3,4) bh assms(13) cy]) simp
  show "Wx = min (TileSize d + neighbours column columns * Overlap d) (levelWidth - X0)"
    unfolding Wx_def X0_def by (rule ax(1))
  show "Wy = min (TileSize d + neighbours row rows * Overlap d) (levelHeight - Y0)"
    unfolding Wy_def Y0_def by (rule ay(1))
  show "X0 + Wx = min ((column + 1) * TileSize d + Overlap d) levelWidth"
    unfolding Wx_def X0_def by (rule ax(2))
  show "Y0 + Wy = min ((row + 1) * TileSize d + Overlap d) levelHeight"
    unfolding Wy_def Y0_def by (rule ay(2))
  show "0 < Wx" unfolding Wx_def X0_def by (rule ax(3))
  show "0 < Wy" unfolding Wy_def Y0_def by (rule ay(3))
qed

lemma dims_512_384:
  "getDimensions 9 (fresh_dzid 512 384 256 ov f)
     = Inr ((512, 384), filled (fresh_dzid 512 384 256 ov f))"
  by (simp add: getDimensions_eq)

lemma tiles_512_384:
  "getNumTiles 9 (fresh_dzid 512 384 256 ov f)
     = Inr ((2, 2), filled (fresh_dzid 512 384 256 ov f))"
  by (simp add: getNumTiles_eq ceil_div_def)

lemma cell_unique:
  fixes t p c c' :: int
  assumes "0 < t" "c * t \<le> p" "p < (c + 1) * t" "c' * t \<le> p" "p < (c' + 1) * t"
  shows "c = c'"
proof -
  have "p div t = c"
    using assms(1,2,3) by (intro int_div_pos_eq [of p t c "p - c * t"]) (simp_all add: algebra_simps)
  moreover have "p div t = c'"
    using assms(1,4,5) by (intro int_div_pos_eq [of p t c' "p - c' * t"]) (simp_all add: algebra_simps)
  ultimately show ?thesis by simp
qed

lemma cell_cover:
  fixes t p lw n ov :: int
  assumes "0 < t" "0 \<le> ov" "0 \<le> p" "p < lw" "\<And>c. (c < n) = (c * t < lw)"
  shows "\<exists>c. 0 \<le> c \<and> c < n \<and> c * t \<le> p \<and> p < min ((c + 1) * t + ov) lw"
proof -
  let ?c = "p div t"
  have 1: "0 \<le> ?c" using assms(1,3) by (simp add: pos_imp_zdiv_nonneg_iff)
  have m: "0 \<le> p mod t" "p mod t < t" using assms(1) by simp_all
  have e: "p = ?c * t + p mod t" by simp
  have 2: "?c * t \<le> p" using m(1) e by linarith
  have "(?c + 1) * t = ?c * t + t" by (simp add: algebra_simps)
  then have 3: "p < (?c + 1) * t" using m(2) e by linarith
  have "?c * t < lw" using 2 assms(4) by simp
  then have 4: "?c < n" using assms(5) by simp
  show ?thesis using 1 2 3 4 assms(2,4) by (intro exI [of _ ?c]) simp
qed

lemma in_stripped_tile_iff:
  assumes "0 < Width d" and "0 < Height d" and "0 < TileSize d" and "0 \<le> Overlap d"
    and "cache_ok d"
    and "TileSize d + 2 * Overlap d < 2 ^ 63"
    and "Width d + Overlap d < 2 ^ 53" and "Height d + Overlap d < 2 ^ 53"
    and dims: "getDimensions level d = Inr ((levelWidth, levelHeight), d1)"
    and tiles: "getNumTiles level d = Inr ((columns, rows), d2)"
    and "0 \<le> column" and "column < columns" and "0 \<le> row" and "row < rows"
  shows "in_stripped_tile level column row d (px, py) =
     (column * TileSize d \<le> px \<and> px < min ((column + 1) * TileSize d + Overlap d) levelWidth
    \<and> row * TileSize d \<le> py \<and> py < min ((row + 1) * TileSize d + Overlap d) levelHeight)"
proof -
  note tf = tiles_facts [OF assms(1,2,3,5) dims tiles]
  have cx: "column * TileSize d < levelWidth" using tf(1) [of column] assms(12) by simp
  have cy: "row * TileSize d < levelHeight" using tf(2) [of row] assms(14) by simp
  note ax = axis_clip(2) [OF assms(3,4) assms(11) cx tf(1) [of "column + 1"]]
  note ay = axis_clip(2) [OF assms(3,4) assms(13) cy tf(2) [of "row + 1"]]
  show ?thesis
    unfolding in_stripped_tile_def tile_bounds_axes [OF assms]
    by (simp add: inside_def strip_leading_overlap_def ax ay)
qed

section \<open>Claims about the pyramid geometry\<close>

text \<open>
  Claim C1 as stated fails: for a fresh descriptor of a 640 by 480 source \<open>NumLevels\<close>
  returns 11, while \<open>floor(log2(max(width, height))) + 1\<close> is 10.
\<close>

theorem NumLevels_floor_log2_counterexample:
  "fst (NumLevels \<lparr>Format = ''jpg'', Overlap = 0, TileSize = 256, Height = 480, Width = 640,
         numLevels = 0\<rparr>) = 11
   \<and> \<lfloor>log 2 (real_of_int (max 640 480))\<rfloor> + 1 = 10"
proof -
  have "Log2_ceil 640 = 10" by (rule Log2_ceil_eqI [of _ 10, simplified]) simp_all
  then show ?thesis using floor_640 by (simp add: NumLevels_def)
qed

text \<open>
  Claim C1, amended: for every descriptor with positive width and height whose cache is
  empty or filled, \<open>NumLevels\<close> returns \<open>ceil(log2(max(width, height))) + 1\<close>. This
  is the value \<open>floor(log2(max(width, height))) + 1\<close> of the claim exactly when the
  larger dimension is a power of two.
\<close>

theorem NumLevels_ceil_log2:
  assumes "0 < Width d" and "0 < Height d" and "cache_ok d"
  shows "fst (NumLevels d) = \<lceil>log 2 (real_of_int (max (Width d) (Height d)))\<rceil> + 1
       \<and> ((fst (NumLevels d) = \<lfloor>log 2 (real_of_int (max (Width d) (Height d)))\<rfloor> + 1)
           = (\<exists>k::nat. max (Width d) (Height d) = 2 ^ k))"
proof -
  let ?m = "max (Width d) (Height d)"
  have m: "0 < ?m" using assms(1) by simp
  have "fst (NumLevels d) = Log2_ceil (max (Height d) (Width d)) + 1"
    using assms(3) by (simp add: NumLevels_eq levels_of_def)
  also have "max (Height d) (Width d) = ?m" by (simp add: max.commute)
  finally have 1: "fst (NumLevels d) = \<lceil>log 2 (real_of_int ?m)\<rceil> + 1"
    using m by (simp only: Log2_ceil_log)
  have "(fst (NumLevels d) = \<lfloor>log 2 (real_of_int ?m)\<rfloor> + 1) = (\<exists>k::nat. ?m = 2 ^ k)"
    using 1 ceiling_eq_floor_iff [of "log 2 (real_of_int ?m)"] log2_int_iff [OF m] by simp
  with 1 show ?thesis by blast
qed

text \<open>
  The amended claim C1 at the 512 by 384 source of the specification's scenario, whose
  larger dimension is a power of two: 10 levels, by the ceiling and by the floor.
\<close>

theorem NumLevels_ceil_log2_witness:
  "fst (NumLevels (fresh_dzid 512 384 256 0 ''jpg'')) = 10
   \<and> \<lceil>log 2 (real_of_int (max 512 384))\<rceil> + 1 = 10
   \<and> \<lfloor>log 2 (real_of_int (max 512 384))\<rfloor> + 1 = 10"
proof -
  have n: "fst (NumLevels (fresh_dzid 512 384 256 0 ''jpg'')) = 10"
    by (simp add: NumLevels_eq)
  have p: "\<exists>k::nat. (512::int) = 2 ^ k"
    by (rule exI [of _ 9]) simp
  show ?thesis
    using NumLevels_ceil_log2 [of "fresh_dzid 512 384 256 0 ''jpg''"] n p
    by simp
qed

text \<open>
  Claim C2: for every descriptor with positive width and height, \<open>Dimensions\<close> at level
  \<open>NumLevels() - 1\<close> is exactly \<open>(width, height)\<close>; at every valid level the scale is
  \<open>2^(level - (numLevels - 1))\<close> and the dimensions are
  \<open>(ceil(width * scale), ceil(height * scale))\<close>.
\<close>

theorem top_level_dimensions:
  assumes "0 < Width d" and "0 < Height d" and "cache_ok d"
  shows "getDimensions (fst (NumLevels d) - 1) (snd (NumLevels d))
           = Inr ((Width d, Height d), snd (NumLevels d))
         \<and> (\<forall>level. 0 \<le> level \<and> level < fst (NumLevels d) \<longrightarrow>
               getScale level (snd (NumLevels d))
                 = Inr (1 / 2 ^ nat (fst (NumLevels d) - 1 - level), snd (NumLevels d))
             \<and> getDimensions level (snd (NumLevels d))
                 = Inr ((\<lceil>of_int (Width d) * (1 / 2 ^ nat (fst (NumLevels d) - 1 - level) :: rat)\<rceil>,
                         \<lceil>of_int (Height d) * (1 / 2 ^ nat (fst (NumLevels d) - 1 - level) :: rat)\<rceil>),
                        snd (NumLevels d)))"
proof -
  have n: "NumLevels d = (levels_of d, filled d)" using assms(3) by (rule NumLevels_eq)
  have top: "getDimensions (levels_of d - 1) (filled d) = Inr ((Width d, Height d), filled d)"
    using levels_of_pos [of d] by (simp add: getDimensions_eq)
  have rest: "getScale level (filled d) = Inr (1 / 2 ^ nat (levels_of d - 1 - level), filled d)
      \<and> getDimensions level (filled d)
          = Inr ((\<lceil>of_int (Width d) * (1 / 2 ^ nat (levels_of d - 1 - level) :: rat)\<rceil>,
                  \<lceil>of_int (Height d) * (1 / 2 ^ nat (levels_of d - 1 - level) :: rat)\<rceil>), filled d)"
    if "0 \<le> level" "level < levels_of d" for level
  proof -
    have p: "Pow_half (levels_of d - 1 - level) = 1 / 2 ^ nat (levels_of d - 1 - level)"
      using that by (simp add: Pow_half_def power_one_over)
    have s: "getScale level (filled d) = Inr (1 / 2 ^ nat (levels_of d - 1 - level), filled d)"
      using that p by (simp add: getScale_eq)
    have c: "\<lceil>of_int w / (2 ^ nat (levels_of d - 1 - level) :: rat)\<rceil>
              = ceil_div w (2 ^ nat (levels_of d - 1 - level))" for w
      using ceil_Pow_half [of "levels_of d - 1 - level" w] that p by (simp add: ceil_div_def)
    show ?thesis using that s by (simp add: getDimensions_eq c)
  qed
  show ?thesis unfolding n fst_conv snd_conv using top rest by blast
qed

text \<open>
  Claim C2 at the 512 by 384 source: level 9 is 512 by 384 and level 8 is 256 by 192.
\<close>

theorem top_level_dimensions_witness:
  "getDimensions 9 (snd (NumLevels (fresh_dzid 512 384 256 0 ''jpg'')))
     = Inr ((512, 384), snd (NumLevels (fresh_dzid 512 384 256 0 ''jpg'')))
   \<and> getDimensions 8 (snd (NumLevels (fresh_dzid 512 384 256 0 ''jpg'')))
     = Inr ((256, 192), snd (NumLevels (fresh_dzid 512 384 256 0 ''jpg'')))"
proof -
  have n: "fst (NumLevels (fresh_dzid 512 384 256 0 ''jpg'')) = 10"
    by (simp add: NumLevels_eq)
  from top_level_dimensions [of "fresh_dzid 512 384 256 0 ''jpg''"]
  have top: "getDimensions 9 (snd (NumLevels (fresh_dzid 512 384 256 0 ''jpg'')))
     = Inr ((512, 384), snd (NumLevels (fresh_dzid 512 384 256 0 ''jpg'')))"
   and rest: "\<forall>level. 0 \<le> level \<and> level < 10 \<longrightarrow>
      getDimensions level (snd (NumLevels (fresh_dzid 512 384 256 0 ''jpg'')))
        = Inr ((\<lceil>512 * (1 / 2 ^ nat (10 - 1 - level) :: rat)\<rceil>,
                \<lceil>384 * (1 / 2 ^ nat (10 - 1 - level) :: rat)\<rceil>),
               snd (NumLevels (fresh_dzid 512 384 256 0 ''jpg'')))"
    by (simp_all add: n)
  from rest have "getDimensions 8 (snd (NumLevels (fresh_dzid 512 384 256 0 ''jpg'')))
        = Inr ((256, 192), snd (NumLevels (fresh_dzid 512 384 256 0 ''jpg'')))"
    by simp
  with top show ?thesis by simp
qed

text \<open>
  Claim C7: \<open>getScale\<close>, \<open>getDimensions\<close>, \<open>getNumTiles\<close> and \<open>getTileBounds\<close> panic
  with the invalid-level error when the level is outside \<open>[0, NumLevels())\<close> and return
  a result for every level inside it; \<open>getTileBounds\<close> does so for every column and
  row, in range or not.
\<close>

theorem level_validation:
  assumes "0 < Width d" and "0 < Height d" and "cache_ok d"
  shows "(level < 0 \<or> fst (NumLevels d) \<le> level \<longrightarrow>
            getScale level d = Inl InvalidLevel
          \<and> getDimensions level d = Inl InvalidLevel
          \<and> getNumTiles level d = Inl InvalidLevel
          \<and> (\<forall>column row. getTileBounds level column row d = Inl InvalidLevel))
       \<and> (0 \<le> level \<and> level < fst (NumLevels d) \<longrightarrow>
            (\<exists>r. getScale level d = Inr r)
          \<and> (\<exists>r. getDimensions level d = Inr r)
          \<and> (\<exists>r. getNumTiles level d = Inr r)
          \<and> (\<forall>column row. \<exists>r. getTileBounds level column row d = Inr r))"
  using assms(3)
  by (simp add: NumLevels_eq getScale_eq getDimensions_eq getNumTiles_eq getTileBounds_eq Let_def)

text \<open>
  Claim C7 at the 512 by 384 source (10 levels): levels 10 and -1 are refused, level 9 is
  accepted, and level 0 is accepted with the out-of-range tile coordinate (7, -3).
\<close>

theorem level_validation_witness:
  "getScale 10 (fresh_dzid 512 384 256 0 ''jpg'') = Inl InvalidLevel
   \<and> getDimensions (- 1) (fresh_dzid 512 384 256 0 ''jpg'') = Inl InvalidLevel
   \<and> (\<exists>r. getNumTiles 9 (fresh_dzid 512 384 256 0 ''jpg'') = Inr r)
   \<and> (\<exists>r. getTileBounds 0 7 (- 3) (fresh_dzid 512 384 256 0 ''jpg'') = Inr r)"
proof -
  have n: "fst (NumLevels (fresh_dzid 512 384 256 0 ''jpg'')) = 10"
    by (simp add: NumLevels_eq)
  show ?thesis
    using level_validation [of "fresh_dzid 512 384 256 0 ''jpg''" 10]
      level_validation [of "fresh_dzid 512 384 256 0 ''jpg''" "- 1"]
      level_validation [of "fresh_dzid 512 384 256 0 ''jpg''" 9]
      level_validation [of "fresh_dzid 512 384 256 0 ''jpg''" 0]
    unfolding n by simp
qed

text \<open>
  Claim C4 as stated fails outside the range of the machine arithmetic, which nothing
  keeps the tile size and the overlap in: for the 512 by 384 source with tile size 256
  and overlap \<open>2^62\<close>, the top level has 2 by 2 tiles, and the rectangle of the tile at
  column 1, row 0 ends at \<open>x = 2^62 + 256\<close>, past the level's width 512.
\<close>

theorem tile_bounds_overflow_counterexample:
  "getDimensions 9 (fresh_dzid 512 384 256 4611686018427387904 ''jpg'')
     = Inr ((512, 384), filled (fresh_dzid 512 384 256 4611686018427387904 ''jpg''))
   \<and> getNumTiles 9 (fresh_dzid 512 384 256 4611686018427387904 ''jpg'')
     = Inr ((2, 2), filled (fresh_dzid 512 384 256 4611686018427387904 ''jpg''))
   \<and> getTileBounds 9 1 0 (fresh_dzid 512 384 256 4611686018427387904 ''jpg'')
     = Inr (\<lparr>Min_pt = \<lparr>X = - 4611686018427387648, Y = 0\<rparr>,
             Max_pt = \<lparr>X = 4611686018427388160, Y = 384\<rparr>\<rparr>,
            filled (fresh_dzid 512 384 256 4611686018427387904 ''jpg''))
   \<and> (512::int) < 4611686018427388160"
proof -
  have f1: "float64_of_int (- 9223372036854775552) = - 9223372036854775808"
    by (simp add: float64_of_int_def bitlen_63 Let_def)
  have f2: "float64_of_int 4611686018427388160 = 4611686018427387904"
    by (simp add: float64_of_int_def bitlen_63 Let_def)
  show ?thesis
    by (simp add: dims_512_384 tiles_512_384 getTileBounds_eq ceil_div_def axis_start_def
        axis_size_def axis_end_def wrap64_def int_of_float64_def f1 f2
        float64_of_int_id)
qed

text \<open>
  Claim C4, amended: provided that \<open>tileSize + 2 * overlap < 2^63\<close> and that
  \<open>width + overlap\<close> and \<open>height + overlap\<close> are below \<open>2^53\<close> (no 64-bit overflow, exact
  conversion to \<open>float64\<close>), for every valid level and every tile coordinate in range of
  the tile count, the leading offset of the tile rectangle on an axis is the overlap
  when the coordinate is nonzero and 0 when it is zero, its size on the axis is the
  tile size plus one overlap for each side with a neighbouring tile, clipped to the
  level, and the rectangle does not extend past the level's width and height.
\<close>

theorem tile_bounds_shape:
  assumes "0 < Width d" and "0 < Height d" and "0 < TileSize d" and "0 \<le> Overlap d"
    and "cache_ok d"
    and "TileSize d + 2 * Overlap d < 2 ^ 63"
    and "Width d + Overlap d < 2 ^ 53" and "Height d + Overlap d < 2 ^ 53"
    and dims: "getDimensions level d = Inr ((levelWidth, levelHeight), d1)"
    and tiles: "getNumTiles level d = Inr ((columns, rows), d2)"
    and "0 \<le> column" and "column < columns" and "0 \<le> row" and "row < rows"
  shows "\<exists>r d3. getTileBounds level column row d = Inr (r, d3)
     \<and> column * TileSize d - X (Min_pt r) = (if column \<noteq> 0 then Overlap d else 0)
     \<and> row * TileSize d - Y (Min_pt r) = (if row \<noteq> 0 then Overlap d else 0)
     \<and> Dx r = min (TileSize d + neighbours column columns * Overlap d) (levelWidth - X (Min_pt r))
     \<and> Dy r = min (TileSize d + neighbours row rows * Overlap d) (levelHeight - Y (Min_pt r))
     \<and> X (Max_pt r) \<le> levelWidth \<and> Y (Max_pt r) \<le> levelHeight"
proof -
  let ?X0 = "column * TileSize d - (if column \<noteq> 0 then Overlap d else 0)"
  let ?Y0 = "row * TileSize d - (if row \<noteq> 0 then Overlap d else 0)"
  let ?Wx = "min (TileSize d + (if column \<noteq> 0 then 2 else 1) * Overlap d) (levelWidth - ?X0)"
  let ?Wy = "min (TileSize d + (if row \<noteq> 0 then 2 else 1) * Overlap d) (levelHeight - ?Y0)"
  let ?r = "\<lparr>Min_pt = \<lparr>X = ?X0, Y = ?Y0\<rparr>, Max_pt = \<lparr>X = ?X0 + ?Wx, Y = ?Y0 + ?Wy\<rparr>\<rparr>"
  note t = tile_rect [OF assms]
  have dx: "Dx ?r = ?Wx" using t(2) by (simp add: Dx_def)
  have dy: "Dy ?r = ?Wy" using t(3) by (simp add: Dy_def)
  have 1: "column * TileSize d - X (Min_pt ?r) = (if column \<noteq> 0 then Overlap d else 0)"
    by simp
  have 2: "row * TileSize d - Y (Min_pt ?r) = (if row \<noteq> 0 then Overlap d else 0)"
    by simp
  have 3: "Dx ?r = min (TileSize d + neighbours column columns * Overlap d)
                     (levelWidth - X (Min_pt ?r))"
    unfolding dx using t(4) by simp
  have 4: "Dy ?r = min (TileSize d + neighbours row rows * Overlap d)
                     (levelHeight - Y (Min_pt ?r))"
    unfolding dy using t(5) by simp
  have 5: "X (Max_pt ?r) \<le> levelWidth" using t(6) by simp
  have 6: "Y (Max_pt ?r) \<le> levelHeight" using t(7) by simp
  show ?thesis using t(1) 1 2 3 4 5 6 by blast
qed

text \<open>
  The amended claim C4 at the scenario of the specification: overlap 10, tile size 256,
  the tile at column 1, row 0 has a leading-left offset of 10 and a leading-top offset
  of 0.
\<close>

theorem tile_bounds_shape_witness:
  "\<exists>r d3. getTileBounds 9 1 0 (fresh_dzid 512 384 256 10 ''jpg'') = Inr (r, d3)
     \<and> 1 * 256 - X (Min_pt r) = 10 \<and> 0 * 256 - Y (Min_pt r) = 0
     \<and> Dx r = min (256 + 1 * 10) (512 - X (Min_pt r))
     \<and> Dy r = min (256 + 1 * 10) (384 - Y (Min_pt r))
     \<and> X (Max_pt r) \<le> 512 \<and> Y (Max_pt r) \<le> 384"
  using tile_bounds_shape [OF _ _ _ _ _ _ _ _ dims_512_384 [of 10 "''jpg''"]
      tiles_512_384 [of 10 "''jpg''"], of 1 0]
  by (simp add: neighbours_def)




text \<open>
  Claim C3 as stated fails when the overlap is positive: for the 512 by 384 source with
  tile size 256 and overlap 10, the top level has 2 by 2 tiles, and the pixel (260, 5)
  lies in the stripped rectangles of both tile (0, 0) and tile (1, 0).
\<close>

theorem stripped_tiles_overlap_counterexample:
  "getNumTiles 9 (fresh_dzid 512 384 256 10 ''jpg'')
     = Inr ((2, 2), filled (fresh_dzid 512 384 256 10 ''jpg''))
   \<and> getTileBounds 9 0 0 (fresh_dzid 512 384 256 10 ''jpg'')
     = Inr (\<lparr>Min_pt = \<lparr>X = 0, Y = 0\<rparr>, Max_pt = \<lparr>X = 266, Y = 266\<rparr>\<rparr>,
            filled (fresh_dzid 512 384 256 10 ''jpg''))
   \<and> getTileBounds 9 1 0 (fresh_dzid 512 384 256 10 ''jpg'')
     = Inr (\<lparr>Min_pt = \<lparr>X = 246, Y = 0\<rparr>, Max_pt = \<lparr>X = 512, Y = 266\<rparr>\<rparr>,
            filled (fresh_dzid 512 384 256 10 ''jpg''))
   \<and> inside (strip_leading_overlap (fresh_dzid 512 384 256 10 ''jpg'') 0 0
        \<lparr>Min_pt = \<lparr>X = 0, Y = 0\<rparr>, Max_pt = \<lparr>X = 266, Y = 266\<rparr>\<rparr>) (260, 5)
   \<and> inside (strip_leading_overlap (fresh_dzid 512 384 256 10 ''jpg'') 1 0
        \<lparr>Min_pt = \<lparr>X = 246, Y = 0\<rparr>, Max_pt = \<lparr>X = 512, Y = 266\<rparr>\<rparr>) (260, 5)"
  by (simp add: tiles_512_384 getTileBounds_eq ceil_div_def inside_def strip_leading_overlap_def
      axis_start_def axis_size_def axis_end_def wrap64_def int_of_float64_def float64_of_int_id)

text \<open>
  Claim C3, amended: provided that \<open>tileSize + 2 * overlap < 2^63\<close> and that
  \<open>width + overlap\<close> and \<open>height + overlap\<close> are below \<open>2^53\<close> (no 64-bit overflow, exact
  conversion to \<open>float64\<close>), at every valid level the stripped rectangle of a tile in range is
  its own \<open>tileSize\<close> by \<open>tileSize\<close> cell extended by \<open>overlap\<close> pixels on the trailing
  (right and bottom) side and clipped to the level. Hence every pixel of the level lies
  in the stripped rectangle of some tile, no stripped rectangle leaves the level, and
  when the overlap is 0 no pixel lies in two of them.
\<close>

theorem stripped_tiles_cover_level:
  assumes "0 < Width d" and "0 < Height d" and "0 < TileSize d" and "0 \<le> Overlap d"
    and "cache_ok d"
    and "TileSize d + 2 * Overlap d < 2 ^ 63"
    and "Width d + Overlap d < 2 ^ 53" and "Height d + Overlap d < 2 ^ 53"
    and dims: "getDimensions level d = Inr ((levelWidth, levelHeight), d1)"
    and tiles: "getNumTiles level d = Inr ((columns, rows), d2)"
  shows "(\<forall>column row px py. 0 \<le> column \<and> column < columns \<and> 0 \<le> row \<and> row < rows \<longrightarrow>
            in_stripped_tile level column row d (px, py) =
              (column * TileSize d \<le> px
               \<and> px < min ((column + 1) * TileSize d + Overlap d) levelWidth
               \<and> row * TileSize d \<le> py
               \<and> py < min ((row + 1) * TileSize d + Overlap d) levelHeight))
       \<and> (\<forall>px py. 0 \<le> px \<and> px < levelWidth \<and> 0 \<le> py \<and> py < levelHeight \<longrightarrow>
            (\<exists>column row. 0 \<le> column \<and> column < columns \<and> 0 \<le> row \<and> row < rows
               \<and> in_stripped_tile level column row d (px, py)))
       \<and> (\<forall>column row px py. 0 \<le> column \<and> column < columns \<and> 0 \<le> row \<and> row < rows
               \<and> in_stripped_tile level column row d (px, py) \<longrightarrow>
            0 \<le> px \<and> px < levelWidth \<and> 0 \<le> py \<and> py < levelHeight)
       \<and> (Overlap d = 0 \<longrightarrow>
            (\<forall>column row column' row' px py.
               0 \<le> column \<and> column < columns \<and> 0 \<le> row \<and> row < rows
               \<and> 0 \<le> column' \<and> column' < columns \<and> 0 \<le> row' \<and> row' < rows
               \<and> in_stripped_tile level column row d (px, py)
               \<and> in_stripped_tile level column' row' d (px, py) \<longrightarrow>
               column = column' \<and> row = row'))"
proof -
  note iff = in_stripped_tile_iff [OF assms(1,2,3,4,5,6,7,8) dims tiles]
  note tf = tiles_facts [OF assms(1,2,3,5) dims tiles]
  have cover: "\<exists>column row. 0 \<le> column \<and> column < columns \<and> 0 \<le> row \<and> row < rows
               \<and> in_stripped_tile level column row d (px, py)"
    if p: "0 \<le> px" "px < levelWidth" "0 \<le> py" "py < levelHeight" for px py
  proof -
    obtain c where c: "0 \<le> c" "c < columns" "c * TileSize d \<le> px"
        "px < min ((c + 1) * TileSize d + Overlap d) levelWidth"
      using cell_cover [OF assms(3,4) p(1,2) tf(1)] by blast
    obtain r where r: "0 \<le> r" "r < rows" "r * TileSize d \<le> py"
        "py < min ((r + 1) * TileSize d + Overlap d) levelHeight"
      using cell_cover [OF assms(3,4) p(3,4) tf(2)] by blast
    have "in_stripped_tile level c r d (px, py)"
      using iff [OF c(1,2) r(1,2)] c(3,4) r(3,4) by simp
    then show ?thesis using c(1,2) r(1,2) by blast
  qed
  have within: "0 \<le> px \<and> px < levelWidth \<and> 0 \<le> py \<and> py < levelHeight"
    if "0 \<le> column" and "column < columns" and "0 \<le> row" and "row < rows"
      and "in_stripped_tile level column row d (px, py)" for column row px py
  proof -
    have b: "column * TileSize d \<le> px" "px < levelWidth" "row * TileSize d \<le> py"
        "py < levelHeight"
      using iff [OF that(1,2,3,4)] that(5) by simp_all
    have "0 \<le> column * TileSize d" "0 \<le> row * TileSize d"
      using that(1,3) assms(3) by simp_all
    then show ?thesis using b by linarith
  qed
  have unique: "column = column' \<and> row = row'"
    if "Overlap d = 0" and "0 \<le> column" and "column < columns" and "0 \<le> row"
      and "row < rows" and "0 \<le> column'" and "column' < columns" and "0 \<le> row'"
      and "row' < rows" and "in_stripped_tile level column row d (px, py)"
      and "in_stripped_tile level column' row' d (px, py)" for column row column' row' px py
  proof -
    have a: "column * TileSize d \<le> px" "px < (column + 1) * TileSize d"
        "row * TileSize d \<le> py" "py < (row + 1) * TileSize d"
      using iff [OF that(2,3,4,5)] that(1,10) by simp_all
    have b: "column' * TileSize d \<le> px" "px < (column' + 1) * TileSize d"
        "row' * TileSize d \<le> py" "py < (row' + 1) * TileSize d"
      using iff [OF that(6,7,8,9)] that(1,11) by simp_all
    show ?thesis
      using cell_unique [OF assms(3) a(1,2) b(1,2)] cell_unique [OF assms(3) a(3,4) b(3,4)]
      by simp
  qed
  show ?thesis
  proof (intro conjI allI impI)
    fix column row px py
    assume "0 \<le> column \<and> column < columns \<and> 0 \<le> row \<and> row < rows"
    then show "in_stripped_tile level column row d (px, py) =
              (column * TileSize d \<le> px
               \<and> px < min ((column + 1) * TileSize d + Overlap d) levelWidth
               \<and> row * TileSize d \<le> py
               \<and> py < min ((row + 1) * TileSize d + Overlap d) levelHeight)"
      using iff [of column row px py] by simp
  next
    fix px py
    assume "0 \<le> px \<and> px < levelWidth \<and> 0 \<le> py \<and> py < levelHeight"
    then show "\<exists>column row. 0 \<le> column \<and> column < columns \<and> 0 \<le> row \<and> row < rows
               \<and> in_stripped_tile level column row d (px, py)"
      using cover [of px py] by simp
  next
    fix column row px py
    assume a: "0 \<le> column \<and> column < columns \<and> 0 \<le> row \<and> row < rows
               \<and> in_stripped_tile level column row d (px, py)"
    show "0 \<le> px" "px < levelWidth" "0 \<le> py" "py < levelHeight"
      using within [of column row px py] a by simp_all
  next
    fix column row column' row' px py
    assume o: "Overlap d = 0"
      and a: "0 \<le> column \<and> column < columns \<and> 0 \<le> row \<and> row < rows
               \<and> 0 \<le> column' \<and> column' < columns \<and> 0 \<le> row' \<and> row' < rows
               \<and> in_stripped_tile level column row d (px, py)
               \<and> in_stripped_tile level column' row' d (px, py)"
    show "column = column'" "row = row'"
      using unique [of column row column' row' px py] o a by simp_all
  qed
qed

text \<open>
  The amended claim C3 at the top level of the 512 by 384 source with overlap 0.
\<close>

theorem stripped_tiles_cover_level_witness:
  "in_stripped_tile 9 1 0 (fresh_dzid 512 384 256 0 ''jpg'') (300, 200)
   \<and> (\<exists>column row. 0 \<le> column \<and> column < 2 \<and> 0 \<le> row \<and> row < 2
         \<and> in_stripped_tile 9 column row (fresh_dzid 512 384 256 0 ''jpg'') (300, 200))
   \<and> \<not> in_stripped_tile 9 0 0 (fresh_dzid 512 384 256 0 ''jpg'') (300, 200)"
proof -
  have h: "0 < Width (fresh_dzid 512 384 256 0 ''jpg'')"
    "0 < Height (fresh_dzid 512 384 256 0 ''jpg'')"
    "0 < TileSize (fresh_dzid 512 384 256 0 ''jpg'')"
    "0 \<le> Overlap (fresh_dzid 512 384 256 0 ''jpg'')"
    "cache_ok (fresh_dzid 512 384 256 0 ''jpg'')"
    "TileSize (fresh_dzid 512 384 256 0 ''jpg'')
       + 2 * Overlap (fresh_dzid 512 384 256 0 ''jpg'') < 2 ^ 63"
    "Width (fresh_dzid 512 384 256 0 ''jpg'') + Overlap (fresh_dzid 512 384 256 0 ''jpg'')
       < 2 ^ 53"
    "Height (fresh_dzid 512 384 256 0 ''jpg'') + Overlap (fresh_dzid 512 384 256 0 ''jpg'')
       < 2 ^ 53"
    by simp_all
  note t = stripped_tiles_cover_level [OF h dims_512_384 tiles_512_384]
  have 1: "in_stripped_tile 9 1 0 (fresh_dzid 512 384 256 0 ''jpg'') (300, 200)"
    using t [THEN conjunct1, rule_format, of 1 0 300 200] by simp
  have 2: "\<exists>column row. 0 \<le> column \<and> column < 2 \<and> 0 \<le> row \<and> row < 2
         \<and> in_stripped_tile 9 column row (fresh_dzid 512 384 256 0 ''jpg'') (300, 200)"
    using t [THEN conjunct2, THEN conjunct1, rule_format, of 300 200] by simp
  have 3: "\<not> in_stripped_tile 9 0 0 (fresh_dzid 512 384 256 0 ''jpg'') (300, 200)"
    using t [THEN conjunct2, THEN conjunct2, THEN conjunct2, rule_format, of 1 0 0 0 300 200] 1
    by auto
  show ?thesis using 1 2 3 by (intro conjI)
qed
section \<open>Filters, level rasters and tile emission: lemmas\<close>

lemma obtainFilter_eq:
  "obtainFilter name =
     (if name = ''bilinear'' \<or> name = ''bicubic'' \<or> name = ''nearest'' \<or> name = ''lanczos''
      then name else ''nearest'')"
  by (simp add: obtainFilter_def RESIZE_FILTERS_def)

lemma getImage_eq:
  "cache_ok (dzid ic) \<Longrightarrow> getImage lib level ic =
     (if 0 \<le> level \<and> level < levels_of (dzid ic)
      then (if Width (dzid ic) = ceil_div (Width (dzid ic)) (2 ^ nat (levels_of (dzid ic) - 1 - level))
             \<and> Height (dzid ic) = ceil_div (Height (dzid ic)) (2 ^ nat (levels_of (dzid ic) - 1 - level))
            then Inr (Image_ic ic, ic\<lparr>dzid := filled (dzid ic)\<rparr>)
            else Inr (Thumbnail lib
                        (uint (ceil_div (Width (dzid ic)) (2 ^ nat (levels_of (dzid ic) - 1 - level))))
                        (uint (ceil_div (Height (dzid ic)) (2 ^ nat (levels_of (dzid ic) - 1 - level))))
                        (Image_ic ic) (RESIZE_FILTERS_at (obtainFilter (ResizeFilter ic))),
                      ic\<lparr>dzid := filled (dzid ic)\<rparr>))
      else Inl InvalidLevel)"
  by (simp add: getImage_def pyramidLevelCheck_eq getDimensions_eq Let_def)

lemma levels_1000_563 [simp]: "levels_of (fresh_dzid 1000 563 t ov f) = 11"
  by (simp add: levels_of_def Log2_ceil_rec)

lemma cache_full_ok: "cache_full d \<Longrightarrow> cache_ok d"
  by (simp add: cache_full_def cache_ok_def)

lemma cache_full_filled_id: "cache_full d \<Longrightarrow> filled d = d"
  by (simp add: cache_full_def filled_def)

lemma cache_full_filled [simp]: "cache_full (filled d)"
  by (simp add: cache_full_def)

lemma perform_cases:
  "perform lib ev w = (r, w') \<Longrightarrow>
     (r = Inr () \<and> w' = w @ [ev] \<and> Fails lib w ev = None)
     \<or> (\<exists>err. r = Inl (LibraryError err) \<and> w' = w \<and> Fails lib w ev = Some err)"
  by (auto simp: perform_def split: option.splits)

lemma perform_ok: "Fails lib w ev = None \<Longrightarrow> perform lib ev w = (Inr (), w @ [ev])"
  by (simp add: perform_def)

text \<open>The row loop under a filled cache and a valid level.\<close>

lemma rows_loop_unfold:
  assumes "cache_full (dzid ic)" "0 \<le> level" "level < levels_of (dzid ic)"
  shows "rows_loop lib levelImage levelDir level column rows row ic w =
     (if row < rows then
        (case getTileBounds level column row (dzid ic) of
           Inl e \<Rightarrow> (Inl e, w)
         | Inr (bounds, d1) \<Rightarrow>
            (case perform lib
                    (Create (Join lib levelDir (Sprintf_tile column row (Format (dzid ic))))) w of
               (Inl e, w1) \<Rightarrow> (Inl e, w1)
             | (Inr u, w1) \<Rightarrow>
                 (case perform lib
                         (Encode JPEG
                            (Join lib levelDir (Sprintf_tile column row (Format (dzid ic))))
                            (Crop lib levelImage bounds) (QualityPercent lib (ImageQuality ic)))
                         w1 of
                    (Inl e, w2) \<Rightarrow> (Inl e, w2)
                  | (Inr u', w2) \<Rightarrow>
                      rows_loop lib levelImage levelDir level column rows (row + 1) ic w2)))
      else (Inr ic, w))"
proof -
  obtain b where b: "getTileBounds level column row (dzid ic) = Inr (b, dzid ic)"
    using assms cache_full_filled_id [OF assms(1)]
    by (simp add: getTileBounds_eq cache_full_ok Let_def)
  have u: "ic\<lparr>dzid := dzid ic\<rparr> = ic" by simp
  show ?thesis
    by (subst rows_loop.simps) (simp add: b Let_def u cong: prod.case_cong sum.case_cong)
qed

lemma getTileBounds_full:
  assumes "cache_full d" "0 \<le> level" "level < levels_of d"
  shows "\<exists>b. getTileBounds level column row d = Inr (b, d)"
  using assms cache_full_filled_id [OF assms(1)]
  by (simp add: getTileBounds_eq cache_full_ok Let_def)

lemma getTileBounds_filled:
  "cache_ok d \<Longrightarrow> getTileBounds level column row (filled d) = getTileBounds level column row d"
  by (simp add: getTileBounds_eq)

lemma getNumTiles_filled:
  "cache_ok d \<Longrightarrow> getNumTiles level (filled d) = getNumTiles level d"
  by (simp add: getNumTiles_eq)

lemma getImage_filled:
  "cache_ok (dzid ic) \<Longrightarrow>
     getImage lib level (ic\<lparr>dzid := filled (dzid ic)\<rparr>)
       = map_sum id (\<lambda>(img, c). (img, c\<lparr>dzid := filled (dzid ic)\<rparr>)) (getImage lib level ic)"
  by (simp add: getImage_eq)

text \<open>What a successful run of the row loop has written.\<close>

lemma rows_loop_events:
  assumes "cache_full (dzid ic)" "0 \<le> level" "level < levels_of (dzid ic)"
    and "rows_loop lib levelImage levelDir level column rows row ic w = (Inr ic', w')"
  shows "ic' = ic \<and> set w \<subseteq> set w'
     \<and> (\<forall>r b d1. row \<le> r \<and> r < rows
            \<and> getTileBounds level column r (dzid ic) = Inr (b, d1) \<longrightarrow>
          Create (Join lib levelDir (Sprintf_tile column r (Format (dzid ic)))) \<in> set w'
          \<and> Encode JPEG (Join lib levelDir (Sprintf_tile column r (Format (dzid ic))))
                (Crop lib levelImage b) (QualityPercent lib (ImageQuality ic)) \<in> set w')"
  using assms(4)
proof (induction "nat (rows - row)" arbitrary: row w)
  case 0
  then have "\<not> row < rows" by simp
  with "0.prems" show ?case
    by (subst (asm) rows_loop_unfold [OF assms(1,2,3)]) auto
next
  case (Suc k)
  then have lt: "row < rows" by simp
  obtain b where b: "getTileBounds level column row (dzid ic) = Inr (b, dzid ic)"
    using getTileBounds_full [OF assms(1,2,3)] by blast
  let ?p = "Join lib levelDir (Sprintf_tile column row (Format (dzid ic)))"
  let ?c = "Create ?p"
  let ?e = "Encode JPEG ?p (Crop lib levelImage b) (QualityPercent lib (ImageQuality ic))"
  from Suc.prems lt b have c: "perform lib ?c w = (Inr (), w @ [?c])"
    by (subst (asm) rows_loop_unfold [OF assms(1,2,3)])
      (auto split: prod.splits sum.splits dest: perform_cases)
  from Suc.prems lt b c have e: "perform lib ?e (w @ [?c]) = (Inr (), w @ [?c] @ [?e])"
    by (subst (asm) rows_loop_unfold [OF assms(1,2,3)])
      (auto split: prod.splits sum.splits dest: perform_cases)
  from Suc.prems lt b c e have
    r: "rows_loop lib levelImage levelDir level column rows (row + 1) ic (w @ [?c] @ [?e])
          = (Inr ic', w')"
    by (subst (asm) rows_loop_unfold [OF assms(1,2,3)]) simp
  have k: "k = nat (rows - (row + 1))" using Suc.hyps(2) by simp
  note ih = Suc.hyps(1) [OF k r]
  have here: "Create ?p \<in> set w'" "?e \<in> set w'" "set w \<subseteq> set w'"
    using ih by auto
  show ?case
  proof (intro conjI allI impI)
    show "ic' = ic" using ih by simp
    show "set w \<subseteq> set w'" by (rule here(3))
  next
    fix r b' d1
    assume a: "row \<le> r \<and> r < rows \<and> getTileBounds level column r (dzid ic) = Inr (b', d1)"
    show "Create (Join lib levelDir (Sprintf_tile column r (Format (dzid ic)))) \<in> set w'"
    proof (cases "r = row")
      case True
      then show ?thesis using here(1) by simp
    next
      case False
      then show ?thesis using ih a by auto
    qed
    show "Encode JPEG (Join lib levelDir (Sprintf_tile column r (Format (dzid ic))))
            (Crop lib levelImage b') (QualityPercent lib (ImageQuality ic)) \<in> set w'"
    proof (cases "r = row")
      case True
      then show ?thesis using here(2) a b by simp
    next
      case False
      then show ?thesis using ih a by auto
    qed
  qed
qed



lemma columns_loop_events:
  assumes "cache_full (dzid ic)" "0 \<le> level" "level < levels_of (dzid ic)"
    and "columns_loop lib levelImage levelDir level columns rows column ic w = (Inr ic', w')"
  shows "ic' = ic \<and> set w \<subseteq> set w'
     \<and> (\<forall>c r b d1. column \<le> c \<and> c < columns \<and> 0 \<le> r \<and> r < rows
            \<and> getTileBounds level c r (dzid ic) = Inr (b, d1) \<longrightarrow>
          Create (Join lib levelDir (Sprintf_tile c r (Format (dzid ic)))) \<in> set w'
          \<and> Encode JPEG (Join lib levelDir (Sprintf_tile c r (Format (dzid ic))))
                (Crop lib levelImage b) (QualityPercent lib (ImageQuality ic)) \<in> set w')"
  using assms(4)
proof (induction "nat (columns - column)" arbitrary: column w)
  case 0
  then have "\<not> column < columns" by simp
  with "0.prems" show ?case
    by (subst (asm) columns_loop.simps) auto
next
  case (Suc k)
  then have lt: "column < columns" by simp
  from Suc.prems lt obtain ic1 w1 where
    r: "rows_loop lib levelImage levelDir level column rows 0 ic w = (Inr ic1, w1)"
    by (subst (asm) columns_loop.simps) (auto split: sum.splits prod.splits)
  note re = rows_loop_events [OF assms(1,2,3) r]
  have ic1: "ic1 = ic" using re by simp
  from Suc.prems lt r ic1 have
    c: "columns_loop lib levelImage levelDir level columns rows (column + 1) ic w1 = (Inr ic', w')"
    by (subst (asm) columns_loop.simps) simp
  have k: "k = nat (columns - (column + 1))" using Suc.hyps(2) by simp
  note ih = Suc.hyps(1) [OF k c]
  have sub: "set w1 \<subseteq> set w'" "set w \<subseteq> set w1" using ih re by simp_all
  show ?case
  proof (intro conjI allI impI)
    show "ic' = ic" using ih by simp
    show "set w \<subseteq> set w'" using sub by blast
  next
    fix c r b d1
    assume a: "column \<le> c \<and> c < columns \<and> 0 \<le> r \<and> r < rows
            \<and> getTileBounds level c r (dzid ic) = Inr (b, d1)"
    have both: "Create (Join lib levelDir (Sprintf_tile c r (Format (dzid ic)))) \<in> set w'
          \<and> Encode JPEG (Join lib levelDir (Sprintf_tile c r (Format (dzid ic))))
                (Crop lib levelImage b) (QualityPercent lib (ImageQuality ic)) \<in> set w'"
    proof (cases "c = column")
      case True
      have "Create (Join lib levelDir (Sprintf_tile c r (Format (dzid ic)))) \<in> set w1
          \<and> Encode JPEG (Join lib levelDir (Sprintf_tile c r (Format (dzid ic))))
                (Crop lib levelImage b) (QualityPercent lib (ImageQuality ic)) \<in> set w1"
        using re a True by blast
      then show ?thesis using sub(1) by blast
    next
      case False
      then have "column + 1 \<le> c" using a by simp
      then show ?thesis using ih a by blast
    qed
    show "Create (Join lib levelDir (Sprintf_tile c r (Format (dzid ic)))) \<in> set w'"
      using both by simp
    show "Encode JPEG (Join lib levelDir (Sprintf_tile c r (Format (dzid ic))))
                (Crop lib levelImage b) (QualityPercent lib (ImageQuality ic)) \<in> set w'"
      using both by simp
  qed
qed

lemma getOrCreatePath_cases:
  "getOrCreatePath lib p w = (r, w') \<Longrightarrow>
     (r = Inr p \<and> (w' = w \<or> w' = w @ [MkdirAll p])) \<or> (\<exists>e. r = Inl e \<and> w' = w)"
  by (auto simp: getOrCreatePath_def split: if_splits prod.splits sum.splits
      dest: perform_cases)

lemma getImage_full:
  assumes "cache_full (dzid ic)" "0 \<le> level" "level < levels_of (dzid ic)"
  shows "\<exists>img. getImage lib level ic = Inr (img, ic)"
proof -
  have u: "ic\<lparr>dzid := dzid ic\<rparr> = ic" by simp
  show ?thesis
    using assms cache_full_filled_id [OF assms(1)]
    by (simp add: getImage_eq cache_full_ok u)
qed

lemma getNumTiles_full:
  assumes "cache_full d" "0 \<le> level" "level < levels_of d"
  shows "\<exists>columns rows. getNumTiles level d = Inr ((columns, rows), d)"
  using assms cache_full_filled_id [OF assms(1)]
  by (simp add: getNumTiles_eq cache_full_ok)

lemma NumLevels_full: "cache_full d \<Longrightarrow> NumLevels d = (levels_of d, d)"
  using cache_full_filled_id [of d] by (simp add: NumLevels_eq cache_full_ok)

text \<open>The level loop under a filled cache.\<close>

lemma levels_loop_unfold:
  assumes "cache_full (dzid ic)"
  shows "levels_loop lib imageFiles level ic w =
     (if level < levels_of (dzid ic) then
        (case getOrCreatePath lib (Join lib imageFiles (Itoa level)) w of
           (Inl e, w1) \<Rightarrow> (Inl e, w1)
         | (Inr levelDir, w1) \<Rightarrow>
             (case getImage lib level ic of
                Inl e \<Rightarrow> (Inl e, w1)
              | Inr (levelImage, ic1) \<Rightarrow>
                  (case getNumTiles level (dzid ic1) of
                     Inl e \<Rightarrow> (Inl e, w1)
                   | Inr ((columns, rows), d2) \<Rightarrow>
                       (case columns_loop lib levelImage levelDir level columns rows 0
                               (ic1\<lparr>dzid := d2\<rparr>) w1 of
                          (Inl e, w2) \<Rightarrow> (Inl e, w2)
                        | (Inr ic2, w2) \<Rightarrow> levels_loop lib imageFiles (level + 1) ic2 w2))))
      else (Inr ic, w))"
proof -
  have u: "ic\<lparr>dzid := dzid ic\<rparr> = ic" by simp
  show ?thesis
    by (subst levels_loop.simps)
      (simp add: NumLevels_full [OF assms] Let_def u cong: prod.case_cong sum.case_cong)
qed

lemma levels_loop_events:
  assumes "cache_full (dzid ic)"
    and "0 \<le> level"
    and "levels_loop lib imageFiles level ic w = (Inr ic', w')"
  shows "ic' = ic \<and> set w \<subseteq> set w'
     \<and> (\<forall>l c r img ic1 columns rows d2 b d3.
            level \<le> l \<and> getImage lib l ic = Inr (img, ic1)
            \<and> getNumTiles l (dzid ic) = Inr ((columns, rows), d2)
            \<and> 0 \<le> c \<and> c < columns \<and> 0 \<le> r \<and> r < rows
            \<and> getTileBounds l c r (dzid ic) = Inr (b, d3) \<longrightarrow>
          Create (Join lib (Join lib imageFiles (Itoa l)) (Sprintf_tile c r (Format (dzid ic))))
            \<in> set w'
          \<and> Encode JPEG
                (Join lib (Join lib imageFiles (Itoa l)) (Sprintf_tile c r (Format (dzid ic))))
                (Crop lib img b) (QualityPercent lib (ImageQuality ic)) \<in> set w')"
  using assms(2,3)
proof (induction "nat (levels_of (dzid ic) - level)" arbitrary: level w)
  case 0
  then have ge: "\<not> level < levels_of (dzid ic)" by simp
  have none: "getImage lib l ic = Inr (img, ic1) \<Longrightarrow> level \<le> l \<Longrightarrow> False" for l img ic1
    using ge assms(1) by (simp add: getImage_eq cache_full_ok split: if_splits)
  from "0.prems" ge have "ic' = ic" "w' = w"
    by (subst (asm) levels_loop_unfold [OF assms(1)], simp)+
  then show ?case using none by blast
next
  case (Suc k)
  then have lt: "level < levels_of (dzid ic)" by simp
  note lv = Suc.prems(1) lt
  obtain img where g: "getImage lib level ic = Inr (img, ic)"
    using getImage_full [OF assms(1) lv] by blast
  obtain columns rows where t: "getNumTiles level (dzid ic) = Inr ((columns, rows), dzid ic)"
    using getNumTiles_full [OF assms(1) lv] by blast
  let ?dir = "Join lib imageFiles (Itoa level)"
  have u: "ic\<lparr>dzid := dzid ic\<rparr> = ic" by simp
  from Suc.prems(2) lt g t u obtain w1 where
    p: "getOrCreatePath lib ?dir w = (Inr ?dir, w1)"
    by (subst (asm) levels_loop_unfold [OF assms(1)])
      (auto split: prod.splits sum.splits dest: getOrCreatePath_cases)
  from Suc.prems(2) lt g t u p obtain ic2 w2 where
    c: "columns_loop lib img ?dir level columns rows 0 ic w1 = (Inr ic2, w2)"
    by (subst (asm) levels_loop_unfold [OF assms(1)])
      (auto split: prod.splits sum.splits)
  note ce = columns_loop_events [OF assms(1) lv c]
  have ic2: "ic2 = ic" using ce by simp
  from Suc.prems(2) lt g t u p c ic2 have
    n: "levels_loop lib imageFiles (level + 1) ic w2 = (Inr ic', w')"
    by (subst (asm) levels_loop_unfold [OF assms(1)]) simp
  have k: "k = nat (levels_of (dzid ic) - (level + 1))" using Suc.hyps(2) by simp
  have nn: "0 \<le> level + 1" using Suc.prems(1) by simp
  note ih = Suc.hyps(1) [OF k nn n]
  have sub: "set w \<subseteq> set w1" "set w1 \<subseteq> set w2" "set w2 \<subseteq> set w'"
    using getOrCreatePath_cases [OF p] ce ih by auto
  show ?case
  proof (intro conjI allI impI)
    show "ic' = ic" using ih by simp
    show "set w \<subseteq> set w'" using sub by blast
  next
    fix l c r img' ic1 columns' rows' d2 b d3
    assume a: "level \<le> l \<and> getImage lib l ic = Inr (img', ic1)
            \<and> getNumTiles l (dzid ic) = Inr ((columns', rows'), d2)
            \<and> 0 \<le> c \<and> c < columns' \<and> 0 \<le> r \<and> r < rows'
            \<and> getTileBounds l c r (dzid ic) = Inr (b, d3)"
    have both: "Create (Join lib (Join lib imageFiles (Itoa l))
                  (Sprintf_tile c r (Format (dzid ic)))) \<in> set w'
          \<and> Encode JPEG
                (Join lib (Join lib imageFiles (Itoa l)) (Sprintf_tile c r (Format (dzid ic))))
                (Crop lib img' b) (QualityPercent lib (ImageQuality ic)) \<in> set w'"
    proof (cases "l = level")
      case True
      have e: "img' = img" "columns' = columns" "rows' = rows" using a True g t by simp_all
      have "Create (Join lib ?dir (Sprintf_tile c r (Format (dzid ic)))) \<in> set w2
          \<and> Encode JPEG (Join lib ?dir (Sprintf_tile c r (Format (dzid ic))))
                (Crop lib img b) (QualityPercent lib (ImageQuality ic)) \<in> set w2"
        using ce a True e by blast
      then show ?thesis using sub(3) True e by blast
    next
      case False
      then have "level + 1 \<le> l" using a by simp
      then show ?thesis using ih a by blast
    qed
    show "Create (Join lib (Join lib imageFiles (Itoa l))
                  (Sprintf_tile c r (Format (dzid ic)))) \<in> set w'"
      using both by simp
    show "Encode JPEG
                (Join lib (Join lib imageFiles (Itoa l)) (Sprintf_tile c r (Format (dzid ic))))
                (Crop lib img' b) (QualityPercent lib (ImageQuality ic)) \<in> set w'"
      using both by simp
  qed
qed



text \<open>With a file system that never fails, the loops run to their end.\<close>

lemma rows_loop_succeeds:
  assumes "cache_full (dzid ic)" "0 \<le> level" "level < levels_of (dzid ic)"
    and nofail: "\<And>w e. Fails lib w e = None"
  shows "\<exists>w'. rows_loop lib levelImage levelDir level column rows row ic w = (Inr ic, w')"
proof (induction "nat (rows - row)" arbitrary: row w)
  case 0
  then have "\<not> row < rows" by simp
  then show ?case by (subst rows_loop_unfold [OF assms(1,2,3)]) simp
next
  case (Suc k)
  then have lt: "row < rows" by simp
  obtain b where b: "getTileBounds level column row (dzid ic) = Inr (b, dzid ic)"
    using getTileBounds_full [OF assms(1,2,3)] by blast
  have k: "k = nat (rows - (row + 1))" using Suc.hyps(2) by simp
  show ?case
    using Suc.hyps(1) [OF k] lt b
    by (subst rows_loop_unfold [OF assms(1,2,3)]) (simp add: perform_ok nofail)
qed

lemma columns_loop_succeeds:
  assumes "cache_full (dzid ic)" "0 \<le> level" "level < levels_of (dzid ic)"
    and nofail: "\<And>w e. Fails lib w e = None"
  shows "\<exists>w'. columns_loop lib levelImage levelDir level columns rows column ic w = (Inr ic, w')"
proof (induction "nat (columns - column)" arbitrary: column w)
  case 0
  then have "\<not> column < columns" by simp
  then show ?case by (subst columns_loop.simps) simp
next
  case (Suc k)
  then have lt: "column < columns" by simp
  obtain w1 where r: "rows_loop lib levelImage levelDir level column rows 0 ic w = (Inr ic, w1)"
    using rows_loop_succeeds [OF assms] by blast
  have k: "k = nat (columns - (column + 1))" using Suc.hyps(2) by simp
  show ?case
    using Suc.hyps(1) [OF k] lt r
    by (subst columns_loop.simps) simp
qed

lemma getOrCreatePath_ok:
  "(\<And>w e. Fails lib w e = None) \<Longrightarrow> \<exists>w'. getOrCreatePath lib p w = (Inr p, w')"
  by (simp add: getOrCreatePath_def perform_ok)

lemma levels_loop_succeeds:
  assumes "cache_full (dzid ic)"
    and nofail: "\<And>w e. Fails lib w e = None"
  shows "0 \<le> level \<Longrightarrow> \<exists>w'. levels_loop lib imageFiles level ic w = (Inr ic, w')"
proof (induction "nat (levels_of (dzid ic) - level)" arbitrary: level w)
  case 0
  then have "\<not> level < levels_of (dzid ic)" by simp
  then show ?case by (subst levels_loop_unfold [OF assms(1)]) simp
next
  case (Suc k)
  then have lt: "level < levels_of (dzid ic)" by simp
  note lv = Suc.prems(1) lt
  obtain img where g: "getImage lib level ic = Inr (img, ic)"
    using getImage_full [OF assms(1) lv] by blast
  obtain columns rows where t: "getNumTiles level (dzid ic) = Inr ((columns, rows), dzid ic)"
    using getNumTiles_full [OF assms(1) lv] by blast
  let ?dir = "Join lib imageFiles (Itoa level)"
  obtain w1 where p: "getOrCreatePath lib ?dir w = (Inr ?dir, w1)"
    using getOrCreatePath_ok [OF nofail] by blast
  obtain w2 where c: "columns_loop lib img ?dir level columns rows 0 ic w1 = (Inr ic, w2)"
    using columns_loop_succeeds [OF assms(1) lv nofail] by blast
  have u: "ic\<lparr>dzid := dzid ic\<rparr> = ic" by simp
  have k: "k = nat (levels_of (dzid ic) - (level + 1))" using Suc.hyps(2) by simp
  have nn: "0 \<le> level + 1" using Suc.prems(1) by simp
  show ?case
    using Suc.hyps(1) [OF k nn] lt g t p c u
    by (subst levels_loop_unfold [OF assms(1)]) simp
qed

text \<open>
  A property of events that holds for directory and file creation and for JPEG
  encoding is preserved by the loops, whether they fail or not.
\<close>

lemma perform_pres:
  "perform lib ev w = (r, w') \<Longrightarrow> P ev \<Longrightarrow> \<forall>e\<in>set w. P e \<Longrightarrow> \<forall>e\<in>set w'. P e"
  by (auto dest!: perform_cases)

lemma rows_loop_pres:
  assumes "cache_full (dzid ic)" "0 \<le> level" "level < levels_of (dzid ic)"
    and P: "\<And>p. P (Create p)" "\<And>p t q. P (Encode JPEG p t q)"
  shows "rows_loop lib levelImage levelDir level column rows row ic w = (res, w') \<Longrightarrow>
           \<forall>e\<in>set w. P e \<Longrightarrow> \<forall>e\<in>set w'. P e"
proof (induction "nat (rows - row)" arbitrary: row w)
  case 0
  then have "\<not> row < rows" by simp
  with "0.prems" show ?case
    by (subst (asm) rows_loop_unfold [OF assms(1,2,3)]) auto
next
  case (Suc k)
  then have lt: "row < rows" by simp
  obtain b where b: "getTileBounds level column row (dzid ic) = Inr (b, dzid ic)"
    using getTileBounds_full [OF assms(1,2,3)] by blast
  let ?p = "Join lib levelDir (Sprintf_tile column row (Format (dzid ic)))"
  let ?c = "Create ?p"
  let ?e = "Encode JPEG ?p (Crop lib levelImage b) (QualityPercent lib (ImageQuality ic))"
  obtain r1 w1 where c: "perform lib ?c w = (r1, w1)" by force
  have p1: "\<forall>e\<in>set w1. P e" using perform_pres [OF c P(1) Suc.prems(2)] .
  obtain r2 w2 where e: "perform lib ?e w1 = (r2, w2)" by force
  have p2: "\<forall>e\<in>set w2. P e" using perform_pres [OF e P(2) p1] .
  have k: "k = nat (rows - (row + 1))" using Suc.hyps(2) by simp
  show ?case
  proof (cases r1)
    case (Inl x)
    with Suc.prems(1) lt b c have "w' = w1"
      by (subst (asm) rows_loop_unfold [OF assms(1,2,3)]) auto
    then show ?thesis using p1 by simp
  next
    case r1: (Inr y)
    show ?thesis
    proof (cases r2)
      case (Inl x)
      with Suc.prems(1) lt b c e r1 have "w' = w2"
        by (subst (asm) rows_loop_unfold [OF assms(1,2,3)]) auto
      then show ?thesis using p2 by simp
    next
      case (Inr z)
      with Suc.prems(1) lt b c e r1 have
        "rows_loop lib levelImage levelDir level column rows (row + 1) ic w2 = (res, w')"
        by (subst (asm) rows_loop_unfold [OF assms(1,2,3)]) auto
      then show ?thesis using Suc.hyps(1) [OF k _ p2] by blast
    qed
  qed
qed

lemma rows_loop_state:
  assumes "cache_full (dzid ic)" "0 \<le> level" "level < levels_of (dzid ic)"
  shows "rows_loop lib levelImage levelDir level column rows row ic w = (Inr ic', w') \<Longrightarrow> ic' = ic"
  using rows_loop_events [OF assms] by blast

lemma columns_loop_pres:
  assumes "cache_full (dzid ic)" "0 \<le> level" "level < levels_of (dzid ic)"
    and P: "\<And>p. P (Create p)" "\<And>p t q. P (Encode JPEG p t q)"
  shows "columns_loop lib levelImage levelDir level columns rows column ic w = (res, w') \<Longrightarrow>
           \<forall>e\<in>set w. P e \<Longrightarrow> \<forall>e\<in>set w'. P e"
proof (induction "nat (columns - column)" arbitrary: column w)
  case 0
  then have "\<not> column < columns" by simp
  with "0.prems" show ?case
    by (subst (asm) columns_loop.simps) auto
next
  case (Suc k)
  then have lt: "column < columns" by simp
  obtain r1 w1 where r: "rows_loop lib levelImage levelDir level column rows 0 ic w = (r1, w1)"
    by force
  have p1: "\<forall>e\<in>set w1. P e"
    using rows_loop_pres [OF assms(1,2,3) P r Suc.prems(2)] .
  have k: "k = nat (columns - (column + 1))" using Suc.hyps(2) by simp
  show ?case
  proof (cases r1)
    case (Inl x)
    with Suc.prems(1) lt r have "w' = w1"
      by (subst (asm) columns_loop.simps) auto
    then show ?thesis using p1 by simp
  next
    case (Inr ic1)
    then have "ic1 = ic" using rows_loop_state [OF assms(1,2,3)] r by blast
    with Suc.prems(1) lt r Inr have
      "columns_loop lib levelImage levelDir level columns rows (column + 1) ic w1 = (res, w')"
      by (subst (asm) columns_loop.simps) auto
    then show ?thesis using Suc.hyps(1) [OF k _ p1] by blast
  qed
qed

lemma getOrCreatePath_pres:
  "getOrCreatePath lib p w = (r, w') \<Longrightarrow> (\<And>p. P (MkdirAll p)) \<Longrightarrow>
     \<forall>e\<in>set w. P e \<Longrightarrow> \<forall>e\<in>set w'. P e"
  by (auto dest!: getOrCreatePath_cases)

lemma levels_loop_pres:
  assumes "cache_full (dzid ic)"
    and P: "\<And>p. P (MkdirAll p)" "\<And>p. P (Create p)" "\<And>p t q. P (Encode JPEG p t q)"
  shows "0 \<le> level \<Longrightarrow> levels_loop lib imageFiles level ic w = (res, w') \<Longrightarrow>
           \<forall>e\<in>set w. P e \<Longrightarrow> \<forall>e\<in>set w'. P e"
proof (induction "nat (levels_of (dzid ic) - level)" arbitrary: level w)
  case 0
  then have "\<not> level < levels_of (dzid ic)" by simp
  with "0.prems" show ?case
    by (subst (asm) levels_loop_unfold [OF assms(1)]) auto
next
  case (Suc k)
  then have lt: "level < levels_of (dzid ic)" by simp
  note lv = Suc.prems(1) lt
  obtain img where g: "getImage lib level ic = Inr (img, ic)"
    using getImage_full [OF assms(1) lv] by blast
  obtain columns rows where t: "getNumTiles level (dzid ic) = Inr ((columns, rows), dzid ic)"
    using getNumTiles_full [OF assms(1) lv] by blast
  let ?dir = "Join lib imageFiles (Itoa level)"
  have u: "ic\<lparr>dzid := dzid ic\<rparr> = ic" by simp
  obtain r1 w1 where p: "getOrCreatePath lib ?dir w = (r1, w1)" by force
  have p1: "\<forall>e\<in>set w1. P e" using getOrCreatePath_pres [OF p P(1) Suc.prems(3)] .
  have k: "k = nat (levels_of (dzid ic) - (level + 1))" using Suc.hyps(2) by simp
  have nn: "0 \<le> level + 1" using Suc.prems(1) by simp
  show ?case
  proof (cases r1)
    case (Inl x)
    with Suc.prems(2) lt p have "w' = w1"
      by (subst (asm) levels_loop_unfold [OF assms(1)]) auto
    then show ?thesis using p1 by simp
  next
    case r1: (Inr dir)
    then have dir: "dir = ?dir" using getOrCreatePath_cases [OF p] by auto
    obtain r2 w2 where c: "columns_loop lib img ?dir level columns rows 0 ic w1 = (r2, w2)"
      by force
    have p2: "\<forall>e\<in>set w2. P e"
      using columns_loop_pres [OF assms(1) lv P(2,3) c p1] .
    show ?thesis
    proof (cases r2)
      case (Inl x)
      with Suc.prems(2) lt p r1 dir g t u c have "w' = w2"
        by (subst (asm) levels_loop_unfold [OF assms(1)]) auto
      then show ?thesis using p2 by simp
    next
      case (Inr ic2)
      then have "ic2 = ic" using columns_loop_events [OF assms(1) lv] c by blast
      with Suc.prems(2) lt p r1 dir g t u c Inr have
        "levels_loop lib imageFiles (level + 1) ic w2 = (res, w')"
        by (subst (asm) levels_loop_unfold [OF assms(1)]) auto
      then show ?thesis using Suc.hyps(1) [OF k nn _ p2] by blast
    qed
  qed
qed



lemma levels_loop_filled:
  assumes "cache_ok (dzid ic)"
  shows "levels_loop lib imageFiles level ic w
           = levels_loop lib imageFiles level (ic\<lparr>dzid := filled (dzid ic)\<rparr>) w"
  by (subst levels_loop.simps [of _ _ _ "ic\<lparr>dzid := filled (dzid ic)\<rparr>"],
      subst levels_loop.simps [of _ _ _ ic])
    (simp add: NumLevels_eq [OF assms] NumLevels_eq [OF cache_ok_filled] Let_def
      cong: prod.case_cong sum.case_cong)

lemma save_cases:
  "save lib p d w = (r, w') \<Longrightarrow>
     (r = Inr () \<and> w' = w @ [Create p, Execute p d]) \<or> (\<exists>e. r = Inl e \<and> set w \<subseteq> set w'
        \<and> set w' \<subseteq> set w \<union> {Create p})"
  by (auto simp: save_def split: prod.splits sum.splits dest!: perform_cases)

lemma save_ok: "(\<And>w e. Fails lib w e = None) \<Longrightarrow> \<exists>w'. save lib p d w = (Inr (), w')"
  by (simp add: save_def perform_ok)

lemma save_pres:
  "save lib p d w = (r, w') \<Longrightarrow> (\<And>p. P (Create p)) \<Longrightarrow> (\<And>p d. P (Execute p d)) \<Longrightarrow>
     \<forall>e\<in>set w. P e \<Longrightarrow> \<forall>e\<in>set w'. P e"
  by (auto dest!: save_cases)

lemma create_succeeds:
  assumes "cache_ok (dzid ic)" and nofail: "\<And>w e. Fails lib w e = None"
  shows "\<exists>w'. create lib destination ic w = (Inr (ic\<lparr>dzid := filled (dzid ic)\<rparr>), w')"
proof -
  let ?ic0 = "ic\<lparr>dzid := filled (dzid ic)\<rparr>"
  let ?files = "getFilesPath destination"
  have full: "cache_full (dzid ?ic0)" by simp
  obtain w1 where p: "getOrCreatePath lib ?files w = (Inr ?files, w1)"
    using getOrCreatePath_ok [OF nofail] by blast
  have "\<exists>w2. levels_loop lib ?files 0 ?ic0 w1 = (Inr ?ic0, w2)"
    by (rule levels_loop_succeeds [OF full nofail]) simp
  then obtain w2 where l: "levels_loop lib ?files 0 ic w1 = (Inr ?ic0, w2)"
    unfolding levels_loop_filled [OF assms(1), symmetric] by blast
  obtain w3 where s: "save lib destination (dzid ?ic0) w2 = (Inr (), w3)"
    using save_ok [OF nofail] by blast
  show ?thesis using p l s by (simp add: create_def)
qed

lemma create_events:
  assumes "cache_ok (dzid ic)"
    and run: "create lib destination ic w = (Inr ic', w')"
    and img: "getImage lib level ic = Inr (levelImage, ic1)"
    and tiles: "getNumTiles level (dzid ic) = Inr ((columns, rows), d2)"
    and rng: "0 \<le> column" "column < columns" "0 \<le> row" "row < rows"
    and tb: "getTileBounds level column row (dzid ic) = Inr (bounds, d3)"
  shows "Create (tile_path lib destination level column row (Format (dzid ic))) \<in> set w'"
    and "Encode JPEG (tile_path lib destination level column row (Format (dzid ic)))
           (Crop lib levelImage bounds) (QualityPercent lib (ImageQuality ic)) \<in> set w'"
proof -
  let ?ic0 = "ic\<lparr>dzid := filled (dzid ic)\<rparr>"
  let ?files = "getFilesPath destination"
  have full: "cache_full (dzid ?ic0)" by simp
  obtain r1 w1 where p: "getOrCreatePath lib ?files w = (r1, w1)" by force
  from run p have r1: "r1 = Inr ?files"
    using getOrCreatePath_cases [OF p] by (auto simp: create_def)
  obtain r2 w2 where l: "levels_loop lib ?files 0 ?ic0 w1 = (r2, w2)" by force
  from run p r1 l obtain ic2 where r2: "r2 = Inr ic2"
    by (auto simp: create_def levels_loop_filled [OF assms(1)] split: sum.splits)
  obtain r3 w3 where s: "save lib destination (dzid ic2) w2 = (r3, w3)" by force
  from run p r1 l r2 s have w3: "w' = w3" "r3 = Inr ()"
    by (auto simp: create_def levels_loop_filled [OF assms(1)] split: sum.splits)
  have sub: "set w2 \<subseteq> set w'" using save_cases [OF s] w3 by auto
  have lv: "0 \<le> level" using img assms(1) by (simp add: getImage_eq split: if_splits)
  have img0: "getImage lib level ?ic0 = Inr (levelImage, ?ic0)"
    using img by (auto simp: getImage_filled [OF assms(1)] getImage_eq [OF assms(1)]
        split: if_splits)
  have tiles0: "getNumTiles level (dzid ?ic0) = Inr ((columns, rows), d2)"
    using tiles by (simp add: getNumTiles_filled [OF assms(1)])
  have tb0: "getTileBounds level column row (dzid ?ic0) = Inr (bounds, d3)"
    using tb by (simp add: getTileBounds_filled [OF assms(1)])
  note ev = levels_loop_events [OF full _ l [unfolded r2], simplified]
  have both: "Create (Join lib (Join lib ?files (Itoa level))
                (Sprintf_tile column row (Format (dzid ic)))) \<in> set w2
      \<and> Encode JPEG (Join lib (Join lib ?files (Itoa level))
                (Sprintf_tile column row (Format (dzid ic))))
           (Crop lib levelImage bounds) (QualityPercent lib (ImageQuality ic)) \<in> set w2"
    using ev lv img0 tiles0 tb0 rng by auto
  show "Create (tile_path lib destination level column row (Format (dzid ic))) \<in> set w'"
    using both sub by (auto simp: tile_path_def)
  show "Encode JPEG (tile_path lib destination level column row (Format (dzid ic)))
           (Crop lib levelImage bounds) (QualityPercent lib (ImageQuality ic)) \<in> set w'"
    using both sub by (auto simp: tile_path_def)
qed

lemma create_pres:
  assumes "cache_ok (dzid ic)"
    and P: "\<And>p. P (MkdirAll p)" "\<And>p. P (Create p)" "\<And>p t q. P (Encode JPEG p t q)"
      "\<And>p d. P (Execute p d)"
    and run: "create lib destination ic w = (res, w')"
    and w: "\<forall>e\<in>set w. P e"
  shows "\<forall>e\<in>set w'. P e"
proof -
  let ?ic0 = "ic\<lparr>dzid := filled (dzid ic)\<rparr>"
  let ?files = "getFilesPath destination"
  have full: "cache_full (dzid ?ic0)" by simp
  obtain r1 w1 where p: "getOrCreatePath lib ?files w = (r1, w1)" by force
  have p1: "\<forall>e\<in>set w1. P e" using getOrCreatePath_pres [OF p P(1) w] .
  show ?thesis
  proof (cases r1)
    case (Inl x)
    with run p have "w' = w1" by (simp add: create_def)
    then show ?thesis using p1 by simp
  next
    case r1: (Inr files)
    then have files: "files = ?files" using getOrCreatePath_cases [OF p] by auto
    obtain r2 w2 where l: "levels_loop lib ?files 0 ?ic0 w1 = (r2, w2)" by force
    have p2: "\<forall>e\<in>set w2. P e"
      using levels_loop_pres [OF full P(1,2,3) _ l p1] by simp
    show ?thesis
    proof (cases r2)
      case (Inl x)
      with run p r1 files l have "w' = w2"
        by (simp add: create_def levels_loop_filled [OF assms(1)])
      then show ?thesis using p2 by simp
    next
      case (Inr ic2)
      obtain r3 w3 where s: "save lib destination (dzid ic2) w2 = (r3, w3)" by force
      have p3: "\<forall>e\<in>set w3. P e" using save_pres [OF s P(2) P(4) p2] .
      from run p r1 files l Inr s have "w' = w3"
        by (auto simp: create_def levels_loop_filled [OF assms(1)] split: sum.splits)
      then show ?thesis using p3 by simp
    qed
  qed
qed

lemma test_library_simps:
  "Crop test_library = Cropped" "Thumbnail test_library = Thumb"
  "Join test_library a b = a @ ''/'' @ b" "Fails test_library w e = None"
  "LoadJPG test_library p = Inr (Src p)" "LoadPNG test_library p = Inr (Src p)"
  by (simp_all add: test_library_def)

lemma files_path_example: "getFilesPath ''out/photo.dzi'' = ''out/photo_files''"
  by code_simp

lemma itoa_examples: "Itoa 9 = ''9''" "Itoa 1 = ''1''" "Itoa 0 = ''0''"
  by code_simp+

section \<open>Claims about filters, loading and emission\<close>

text \<open>
  Claim C6 at a 1000 by 563 source, where the code departs from it. At level 9 the
  dimensions are 500 by 282, which are not those of the source, and \<open>getImage\<close> returns
  the result of \<open>resize.Thumbnail\<close> called with 500 and 282 as maximal width and
  height and the filter resolved through the registry. The size of that raster is
  decided by the resize library, which scales within these bounds and keeps the aspect
  ratio of the source. At level 10, whose dimensions are those of the source, the
  source raster itself is returned.
\<close>

theorem getImage_thumbnail_request:
  "getDimensions 9 (fresh_dzid 1000 563 256 0 ''jpg'')
     = Inr ((500, 282), filled (fresh_dzid 1000 563 256 0 ''jpg''))
   \<and> getImage lib 9 \<lparr>dzid = fresh_dzid 1000 563 256 0 ''jpg'', Image_ic = img,
                       ImageQuality = q, ResizeFilter = '''', CopyMetadata = False\<rparr>
     = Inr (Thumbnail lib 500 282 img NearestNeighbor,
            \<lparr>dzid = filled (fresh_dzid 1000 563 256 0 ''jpg''), Image_ic = img,
             ImageQuality = q, ResizeFilter = '''', CopyMetadata = False\<rparr>)
   \<and> getImage lib 10 \<lparr>dzid = fresh_dzid 1000 563 256 0 ''jpg'', Image_ic = img,
                       ImageQuality = q, ResizeFilter = '''', CopyMetadata = False\<rparr>
     = Inr (img,
            \<lparr>dzid = filled (fresh_dzid 1000 563 256 0 ''jpg''), Image_ic = img,
             ImageQuality = q, ResizeFilter = '''', CopyMetadata = False\<rparr>)"
  by (simp add: getImage_eq getDimensions_eq ceil_div_def uint_def obtainFilter_eq
      RESIZE_FILTERS_at_def RESIZE_FILTERS_def)

text \<open>
  Claim C8: each registered name, \<open>bilinear\<close>, \<open>bicubic\<close>, \<open>nearest\<close> and \<open>lanczos\<close>,
  resolves to its own algorithm; every other name, \<open>xyz\<close> for one, resolves to the
  nearest-neighbour algorithm, and the lookup in the registry finds an entry.
\<close>

theorem filter_resolution:
  "RESIZE_FILTERS_at (obtainFilter ''bilinear'') = Bilinear
   \<and> RESIZE_FILTERS_at (obtainFilter ''bicubic'') = Bicubic
   \<and> RESIZE_FILTERS_at (obtainFilter ''nearest'') = NearestNeighbor
   \<and> RESIZE_FILTERS_at (obtainFilter ''lanczos'') = Lanczos3
   \<and> RESIZE_FILTERS_at (obtainFilter ''xyz'') = NearestNeighbor
   \<and> (name \<in> {''bilinear'', ''bicubic'', ''nearest'', ''lanczos''} \<longrightarrow>
         obtainFilter name = name
         \<and> map_of RESIZE_FILTERS (obtainFilter name)
             = Some (RESIZE_FILTERS_at (obtainFilter name)))
   \<and> (name \<notin> {''bilinear'', ''bicubic'', ''nearest'', ''lanczos''} \<longrightarrow>
         obtainFilter name = ''nearest''
         \<and> map_of RESIZE_FILTERS (obtainFilter name) = Some NearestNeighbor
         \<and> RESIZE_FILTERS_at (obtainFilter name) = NearestNeighbor)"
  by (simp add: obtainFilter_eq RESIZE_FILTERS_at_def RESIZE_FILTERS_def)

text \<open>
  Claim C8 at the names \<open>lanczos\<close> and \<open>xyz\<close>.
\<close>

theorem filter_resolution_witness:
  "obtainFilter ''lanczos'' = ''lanczos''
   \<and> map_of RESIZE_FILTERS (obtainFilter ''lanczos'') = Some Lanczos3
   \<and> obtainFilter ''xyz'' = ''nearest''
   \<and> map_of RESIZE_FILTERS (obtainFilter ''xyz'') = Some NearestNeighbor"
  using filter_resolution [of "''lanczos''"] filter_resolution [of "''xyz''"]
  by auto

text \<open>
  Claim C10: with the empty format the source is loaded by the JPEG decoder, as with
  \<open>jpg\<close>; \<open>New\<close> then does not panic with the unsupported-format error and builds the
  creator it builds for \<open>jpg\<close>, the format recorded in the descriptor apart. \<open>New\<close>
  panics with that error exactly for a format other than the empty one, \<open>jpg\<close> and
  \<open>png\<close>, and the run then ends with the log of effects unchanged.
\<close>

theorem empty_format_loads_jpeg:
  "loadImage lib source '''' = Inr (LoadJPG lib source)
   \<and> loadImage lib source '''' = loadImage lib source ''jpg''
   \<and> New lib ic source '''' tileSize overlap \<noteq> Inl UnsupportedFormat
   \<and> New lib ic source '''' tileSize overlap
       = map_sum id (\<lambda>c. c\<lparr>dzid := (dzid c)\<lparr>Format := ''''\<rparr>\<rparr>)
           (New lib ic source ''jpg'' tileSize overlap)
   \<and> (New lib ic source format tileSize overlap = Inl UnsupportedFormat)
       = (format \<notin> {'''', ''jpg'', ''png''})
   \<and> (format \<notin> {'''', ''jpg'', ''png''} \<longrightarrow>
         main_run lib zero source format tileSize overlap imageQuality destination w
           = (Inl UnsupportedFormat, w))"
  by (auto simp: loadImage_def New_def main_run_def Let_def fresh_dzid_def
      split: sum.splits)

text \<open>
  Claim C10 in the example library: the empty format loads the source, the format
  \<open>gif\<close> is refused and the run leaves an empty log.
\<close>

theorem empty_format_loads_jpeg_witness:
  "New test_library test_creator ''photo'' '''' 256 0
     = Inr \<lparr>dzid = fresh_dzid 512 384 256 0 '''', Image_ic = Src ''photo'', ImageQuality = Float_0,
            ResizeFilter = '''', CopyMetadata = False\<rparr>
   \<and> New test_library test_creator ''photo.gif'' ''gif'' 256 0 = Inl UnsupportedFormat
   \<and> main_run test_library test_creator ''photo.gif'' ''gif'' 256 0 Float_0_8 ''out/photo.dzi'' []
       = (Inl UnsupportedFormat, [])"
proof -
  have j: "New test_library test_creator ''photo'' ''jpg'' 256 0
     = Inr \<lparr>dzid = fresh_dzid 512 384 256 0 ''jpg'', Image_ic = Src ''photo'', ImageQuality = Float_0,
            ResizeFilter = '''', CopyMetadata = False\<rparr>"
    by (simp add: New_def loadImage_def test_library_def test_creator_def Dx_def Dy_def
        wrap64_def)
  show ?thesis
    using empty_format_loads_jpeg [of test_library "''photo''" test_creator 256 0 "''gif''"]
      empty_format_loads_jpeg [of test_library "''photo.gif''" test_creator 256 0 "''gif''"
        test_creator Float_0_8 "''out/photo.dzi''" "[]"]
    by (simp add: j fresh_dzid_def)
qed

text \<open>
  Claim C9: a run of \<open>create\<close> that meets no failing effect returns; when \<open>create\<close>
  returns, for every level in \<open>[0, NumLevels())\<close> and every column and row in range of
  the tile count, the file at the tile's path under the destination has been created
  and the crop of the level's raster to the tile's bounds has been written to it by the
  JPEG encoder, at the quality \<open>int(ImageQuality * 100)\<close>; and every encoding that
  \<open>create\<close> adds to the log, in a run that fails as in one that returns, is by the
  JPEG encoder, whatever the configured format.
\<close>

theorem create_writes_every_tile_as_jpeg:
  assumes "0 < Width (dzid ic)" and "0 < Height (dzid ic)" and "0 < TileSize (dzid ic)"
    and "cache_ok (dzid ic)"
  shows "((\<forall>w0 e. Fails lib w0 e = None) \<longrightarrow>
            (\<exists>ic' w'. create lib destination ic w = (Inr ic', w')))
     \<and> (\<forall>ic' w' level columns rows d2 column row.
            create lib destination ic w = (Inr ic', w')
            \<and> 0 \<le> level \<and> level < fst (NumLevels (dzid ic))
            \<and> getNumTiles level (dzid ic) = Inr ((columns, rows), d2)
            \<and> 0 \<le> column \<and> column < columns \<and> 0 \<le> row \<and> row < rows \<longrightarrow>
            (\<exists>levelImage ic1 bounds d3.
               getImage lib level ic = Inr (levelImage, ic1)
               \<and> getTileBounds level column row (dzid ic) = Inr (bounds, d3)
               \<and> Create (tile_path lib destination level column row (Format (dzid ic)))
                   \<in> set w'
               \<and> Encode JPEG (tile_path lib destination level column row (Format (dzid ic)))
                   (Crop lib levelImage bounds) (QualityPercent lib (ImageQuality ic))
                   \<in> set w'))
     \<and> (\<forall>res w' c p t q.
            create lib destination ic w = (res, w')
            \<and> Encode c p t q \<in> set w' \<and> Encode c p t q \<notin> set w \<longrightarrow> c = JPEG)"
proof (intro conjI allI impI)
  assume "\<forall>w0 e. Fails lib w0 e = None"
  then show "\<exists>ic' w'. create lib destination ic w = (Inr ic', w')"
    using create_succeeds [OF assms(4), of lib destination w] by blast
next
  fix ic' w' level columns rows d2 column row
  assume a: "create lib destination ic w = (Inr ic', w')
            \<and> 0 \<le> level \<and> level < fst (NumLevels (dzid ic))
            \<and> getNumTiles level (dzid ic) = Inr ((columns, rows), d2)
            \<and> 0 \<le> column \<and> column < columns \<and> 0 \<le> row \<and> row < rows"
  then have lv: "0 \<le> level" "level < levels_of (dzid ic)"
    using assms(4) by (simp_all add: NumLevels_eq)
  have "\<exists>levelImage ic1. getImage lib level ic = Inr (levelImage, ic1)"
    using lv assms(4) by (simp add: getImage_eq)
  then obtain levelImage ic1 where g: "getImage lib level ic = Inr (levelImage, ic1)"
    by blast
  obtain bounds d3 where b: "getTileBounds level column row (dzid ic) = Inr (bounds, d3)"
    using lv assms(4) by (simp add: getTileBounds_eq Let_def)
  have run: "create lib destination ic w = (Inr ic', w')"
    and tiles: "getNumTiles level (dzid ic) = Inr ((columns, rows), d2)"
    and rng: "0 \<le> column" "column < columns" "0 \<le> row" "row < rows"
    using a by simp_all
  note ev = create_events [OF assms(4) run g tiles rng b]
  show "\<exists>levelImage ic1 bounds d3.
               getImage lib level ic = Inr (levelImage, ic1)
               \<and> getTileBounds level column row (dzid ic) = Inr (bounds, d3)
               \<and> Create (tile_path lib destination level column row (Format (dzid ic)))
                   \<in> set w'
               \<and> Encode JPEG (tile_path lib destination level column row (Format (dzid ic)))
                   (Crop lib levelImage bounds) (QualityPercent lib (ImageQuality ic))
                   \<in> set w'"
    using g b ev by blast
next
  fix res w' c p t q
  assume a: "create lib destination ic w = (res, w')
            \<and> Encode c p t q \<in> set w' \<and> Encode c p t q \<notin> set w"
  let ?P = "\<lambda>e. e \<in> set w \<or> (\<forall>c p t q. e = Encode c p t q \<longrightarrow> c = JPEG)"
  have run: "create lib destination ic w = (res, w')" using a by simp
  have "\<forall>e\<in>set w'. ?P e"
    by (rule create_pres [OF assms(4) _ _ _ _ run, of ?P]) simp_all
  then show "c = JPEG" using a by blast
qed

text \<open>
  Claim C9 in the example library, for a 512 by 384 source with format \<open>png\<close>, tile
  size 256, overlap 10 and quality 0.8: the run returns, the tile at level 9, column 1,
  row 0 is created as \<open>out/photo_files/9/1_0.png\<close> and written by the JPEG encoder,
  not by the PNG encoder.
\<close>

theorem create_writes_every_tile_as_jpeg_witness:
  "\<exists>ic' w'. create test_library ''out/photo.dzi'' test_run_creator [] = (Inr ic', w')
     \<and> Create ''out/photo_files/9/1_0.png'' \<in> set w'
     \<and> Encode JPEG ''out/photo_files/9/1_0.png''
          (Cropped (Src ''photo.png'') \<lparr>Min_pt = \<lparr>X = 246, Y = 0\<rparr>, Max_pt = \<lparr>X = 512, Y = 266\<rparr>\<rparr>)
          80 \<in> set w'
     \<and> Encode PNG ''out/photo_files/9/1_0.png''
          (Cropped (Src ''photo.png'') \<lparr>Min_pt = \<lparr>X = 246, Y = 0\<rparr>, Max_pt = \<lparr>X = 512, Y = 266\<rparr>\<rparr>)
          80 \<notin> set w'"
proof -
  have h: "0 < Width (dzid test_run_creator)" "0 < Height (dzid test_run_creator)"
    "0 < TileSize (dzid test_run_creator)" "cache_ok (dzid test_run_creator)"
    by (simp_all add: test_run_creator_def)
  note t = create_writes_every_tile_as_jpeg [OF h, of test_library "''out/photo.dzi''" "[]"]
  obtain ic' w' where run: "create test_library ''out/photo.dzi'' test_run_creator [] = (Inr ic', w')"
    using t [THEN conjunct1] by (auto simp: test_library_simps)
  have n: "fst (NumLevels (dzid test_run_creator)) = 10"
    by (simp add: NumLevels_eq test_run_creator_def)
  have tiles: "getNumTiles 9 (dzid test_run_creator)
                 = Inr ((2, 2), filled (dzid test_run_creator))"
    by (simp add: test_run_creator_def tiles_512_384)
  have g: "getImage test_library 9 test_run_creator = Inr (img, c) \<Longrightarrow> img = Src ''photo.png''"
    for img c
    by (simp add: getImage_eq test_run_creator_def split: if_splits)
  have b: "getTileBounds 9 1 0 (dzid test_run_creator) = Inr (r, d) \<Longrightarrow>
             r = \<lparr>Min_pt = \<lparr>X = 246, Y = 0\<rparr>, Max_pt = \<lparr>X = 512, Y = 266\<rparr>\<rparr>" for r d
    by (auto simp: getTileBounds_eq test_run_creator_def ceil_div_def axis_start_def
        axis_end_def axis_size_def wrap64_def int_of_float64_def float64_of_int_id)
  have p: "tile_path test_library ''out/photo.dzi'' 9 1 0 (Format (dzid test_run_creator))
             = ''out/photo_files/9/1_0.png''"
    by (simp add: tile_path_def files_path_example itoa_examples Sprintf_tile_def
        test_library_simps test_run_creator_def)
  have q: "QualityPercent test_library (ImageQuality test_run_creator) = 80"
    by (simp add: test_library_def test_run_creator_def)
  from t [THEN conjunct2, THEN conjunct1, rule_format, of ic' w' 9 2 2 _ 1 0] run n tiles
  obtain levelImage ic1 bounds d3 where
    e: "getImage test_library 9 test_run_creator = Inr (levelImage, ic1)"
      "getTileBounds 9 1 0 (dzid test_run_creator) = Inr (bounds, d3)"
      "Create ''out/photo_files/9/1_0.png'' \<in> set w'"
      "Encode JPEG ''out/photo_files/9/1_0.png'' (Cropped levelImage bounds) 80 \<in> set w'"
    by (auto simp: p q test_library_simps)
  have 1: "Encode JPEG ''out/photo_files/9/1_0.png''
          (Cropped (Src ''photo.png'') \<lparr>Min_pt = \<lparr>X = 246, Y = 0\<rparr>, Max_pt = \<lparr>X = 512, Y = 266\<rparr>\<rparr>)
          80 \<in> set w'"
    using e(4) g [OF e(1)] b [OF e(2)] by simp
  have 2: "Encode PNG ''out/photo_files/9/1_0.png''
          (Cropped (Src ''photo.png'') \<lparr>Min_pt = \<lparr>X = 246, Y = 0\<rparr>, Max_pt = \<lparr>X = 512, Y = 266\<rparr>\<rparr>)
          80 \<notin> set w'"
    using t [THEN conjunct2, THEN conjunct2, rule_format, of _ w' PNG] run by auto
  show ?thesis using run e(3) 1 2 by blast
qed


end
